theory Spec2Isabelle
  imports Main "HOL-Library.Multiset"
begin

section \<open>Python values shared by the puzzle engine and the solver\<close>

text \<open>
  Exceptions of the Python code are values: every function that can raise returns
  \<open>py_error + 'a\<close>, with \<open>Inl\<close> the exception.
\<close>

datatype py_error = IndexError | ValueError | TypeError | KeyError string | JSONDecodeError

type_synonym cell = "int \<times> int"
type_synonym direction = "int \<times> int"
type_synonym grid = "char list list"

text \<open>The blank sentinel \<open>' '\<close> of \<open>puzzle_engine.py\<close>.\<close>

definition BLANK :: char where
  "BLANK = CHR '' ''"

text \<open>\<open>xs[i]\<close>: a negative index counts from the end, an index out of range raises.\<close>

definition py_getitem :: "'a list \<Rightarrow> int \<Rightarrow> py_error + 'a" where
  "py_getitem xs i =
     (let n = int (length xs); j = (if i < 0 then i + n else i)
      in if 0 \<le> j \<and> j < n then Inr (xs ! nat j) else Inl IndexError)"

text \<open>\<open>xs[i] = v\<close>, with the same index rules.\<close>

definition py_setitem :: "'a list \<Rightarrow> int \<Rightarrow> 'a \<Rightarrow> py_error + 'a list" where
  "py_setitem xs i v =
     (let n = int (length xs); j = (if i < 0 then i + n else i)
      in if 0 \<le> j \<and> j < n then Inr (xs[nat j := v]) else Inl IndexError)"

text \<open>\<open>grid[row][col]\<close>\<close>

definition grid_get :: "grid \<Rightarrow> int \<Rightarrow> int \<Rightarrow> py_error + char" where
  "grid_get g row col =
     (case py_getitem g row of Inl e \<Rightarrow> Inl e | Inr r \<Rightarrow> py_getitem r col)"

text \<open>
  \<open>grid[row][col] = letter\<close>. The rows of a grid are separate list objects (the engine
  builds each with its own comprehension), so the write changes one row only.
\<close>

definition grid_set :: "grid \<Rightarrow> int \<Rightarrow> int \<Rightarrow> char \<Rightarrow> py_error + grid" where
  "grid_set g row col letter =
     (case py_getitem g row of
        Inl e \<Rightarrow> Inl e
      | Inr r \<Rightarrow>
          (case py_setitem r col letter of
             Inl e \<Rightarrow> Inl e
           | Inr r' \<Rightarrow> py_setitem g row r'))"

section \<open>constants.py\<close>

definition MIN_WORD_LEN :: nat where
  "MIN_WORD_LEN = 2"

definition MAX_PLACEMENT_ATTEMPTS :: nat where
  "MAX_PLACEMENT_ATTEMPTS = 100"

definition DIRECTIONS :: "direction list" where
  "DIRECTIONS = [(0, 1), (1, 0), (0, -1), (-1, 0), (1, 1), (1, -1), (-1, 1), (-1, -1)]"

definition CELL_SIZE :: int where
  "CELL_SIZE = 30"

section \<open>puzzle\_engine.py: placement checks and writes\<close>

text \<open>
  \<open>can_place_word\<close>: the loop over \<open>enumerate(word)\<close>, returning at the first cell that
  is out of bounds or holds a different letter.
\<close>

fun can_place_loop :: "grid \<Rightarrow> int \<Rightarrow> int \<Rightarrow> direction \<Rightarrow> (nat \<times> char) list \<Rightarrow> py_error + bool" where
  "can_place_loop g start_row start_col d [] = Inr True"
| "can_place_loop g start_row start_col d ((i, letter) # rest) =
     (let row = start_row + int i * fst d;
          col = start_col + int i * snd d;
          size = int (length g)
      in if \<not> (0 \<le> row \<and> row < size \<and> 0 \<le> col \<and> col < size) then Inr False
         else (case grid_get g row col of
                 Inl e \<Rightarrow> Inl e
               | Inr x \<Rightarrow>
                   if x \<noteq> BLANK \<and> x \<noteq> letter then Inr False
                   else can_place_loop g start_row start_col d rest))"

definition can_place_word :: "grid \<Rightarrow> string \<Rightarrow> int \<Rightarrow> int \<Rightarrow> direction \<Rightarrow> py_error + bool" where
  "can_place_word g word start_row start_col d =
     can_place_loop g start_row start_col d (enumerate 0 word)"

text \<open>\<open>place_word\<close>: one write per letter, in order; no bounds check of its own.\<close>

fun place_loop :: "grid \<Rightarrow> int \<Rightarrow> int \<Rightarrow> direction \<Rightarrow> (nat \<times> char) list \<Rightarrow> py_error + grid" where
  "place_loop g start_row start_col d [] = Inr g"
| "place_loop g start_row start_col d ((i, letter) # rest) =
     (case grid_set g (start_row + int i * fst d) (start_col + int i * snd d) letter of
        Inl e \<Rightarrow> Inl e
      | Inr g' \<Rightarrow> place_loop g' start_row start_col d rest)"

definition place_word :: "grid \<Rightarrow> string \<Rightarrow> int \<Rightarrow> int \<Rightarrow> direction \<Rightarrow> py_error + grid" where
  "place_word g word start_row start_col d =
     place_loop g start_row start_col d (enumerate 0 word)"

definition get_word_path :: "string \<Rightarrow> int \<Rightarrow> int \<Rightarrow> direction \<Rightarrow> cell list" where
  "get_word_path word start_row start_col d =
     map (\<lambda>i. (start_row + int i * fst d, start_col + int i * snd d)) [0..<length word]"

text \<open>A grid all of whose rows are as long as the grid is high.\<close>

definition square_grid :: "grid \<Rightarrow> bool" where
  "square_grid g = (\<forall>row \<in> set g. length row = length g)"

text \<open>A cell that exists in the grid, addressed by non-negative indices.\<close>

definition cell_ok :: "grid \<Rightarrow> cell \<Rightarrow> bool" where
  "cell_ok g x =
     (0 \<le> fst x \<and> nat (fst x) < length g \<and> 0 \<le> snd x \<and> nat (snd x) < length (g ! nat (fst x)))"

text \<open>
  The acceptance test of one cell, in the words of the specification: the cell lies within
  \<open>[0, size)\<^sup>2\<close> and is blank or already holds the letter.
\<close>

definition cell_accepts :: "grid \<Rightarrow> int \<Rightarrow> int \<Rightarrow> char \<Rightarrow> bool" where
  "cell_accepts g row col letter =
     (0 \<le> row \<and> row < int (length g) \<and> 0 \<le> col \<and> col < int (length g) \<and>
      (grid_get g row col = Inr BLANK \<or> grid_get g row col = Inr letter))"

text \<open>The writes of \<open>place_word\<close> as (cell, letter) pairs, in the order they happen.\<close>

definition path_entries :: "int \<Rightarrow> int \<Rightarrow> direction \<Rightarrow> (nat \<times> char) list \<Rightarrow> (cell \<times> char) list" where
  "path_entries sr sc d es =
     map (\<lambda>(i, l). ((sr + int i * fst d, sc + int i * snd d), l)) es"

section \<open>puzzle\_engine.py: the generator\<close>

text \<open>
  The module \<open>random\<close> is an injected source: a fixed sequence \<open>src\<close> of naturals and a
  position \<open>k\<close> that every draw advances by one. A draw reduces the next number into
  the requested range, so every sequence of outcomes Python's generator can produce is
  the behaviour of some source, and a statement for all sources covers them all.
\<close>

type_synonym rand_source = "nat \<Rightarrow> nat"

text \<open>\<open>random.randint(a, b)\<close>: an integer of \<open>[a, b]\<close>; \<open>ValueError\<close> on an empty range.\<close>

definition randint :: "rand_source \<Rightarrow> nat \<Rightarrow> int \<Rightarrow> int \<Rightarrow> py_error + (int \<times> nat)" where
  "randint src k a b =
     (if b < a then Inl ValueError
      else Inr (a + int (src k mod nat (b - a + 1)), Suc k))"

text \<open>\<open>random.choice(seq)\<close>: an element of \<open>seq\<close>; \<open>IndexError\<close> on an empty sequence.\<close>

definition choice :: "rand_source \<Rightarrow> nat \<Rightarrow> 'a list \<Rightarrow> py_error + ('a \<times> nat)" where
  "choice src k seq =
     (if seq = [] then Inl IndexError
      else Inr (seq ! (src k mod length seq), Suc k))"

definition ALPHABET :: string where
  "ALPHABET = ''ABCDEFGHIJKLMNOPQRSTUVWXYZ''"

text \<open>An entry of \<open>placed_words\<close>: the dict with keys \<open>'word'\<close>, \<open>'path'\<close>, \<open>'direction'\<close>.\<close>

record placement =
  pw_word :: string
  pw_path :: "cell list"
  pw_direction :: direction

text \<open>
  The \<open>while not placed and attempts < MAX_PLACEMENT_ATTEMPTS\<close> loop for one word. It
  returns the placement made (\<open>None\<close> when \<open>placed\<close> is still false), the grid, the
  final value of \<open>attempts\<close> and the position of the random source.
\<close>

function attempt_loop ::
  "rand_source \<Rightarrow> int \<Rightarrow> string \<Rightarrow> grid \<Rightarrow> nat \<Rightarrow> nat
     \<Rightarrow> py_error + (placement option \<times> grid \<times> nat \<times> nat)" where
  "attempt_loop src grid_size word g attempts k =
     (if attempts < MAX_PLACEMENT_ATTEMPTS then
        (case randint src k 0 (grid_size - 1) of
           Inl e \<Rightarrow> Inl e
         | Inr (start_row, k1) \<Rightarrow>
        (case randint src k1 0 (grid_size - 1) of
           Inl e \<Rightarrow> Inl e
         | Inr (start_col, k2) \<Rightarrow>
        (case choice src k2 DIRECTIONS of
           Inl e \<Rightarrow> Inl e
         | Inr (direction, k3) \<Rightarrow>
        (case can_place_word g word start_row start_col direction of
           Inl e \<Rightarrow> Inl e
         | Inr True \<Rightarrow>
             (case place_word g word start_row start_col direction of
                Inl e \<Rightarrow> Inl e
              | Inr g' \<Rightarrow>
                  Inr (Some \<lparr>pw_word = word,
                             pw_path = get_word_path word start_row start_col direction,
                             pw_direction = direction\<rparr>,
                       g', Suc attempts, k3))
         | Inr False \<Rightarrow> attempt_loop src grid_size word g (Suc attempts) k3))))
      else Inr (None, g, attempts, k))"
  by pat_completeness auto
termination
  by (relation "measure (\<lambda>(src, grid_size, word, g, attempts, k). MAX_PLACEMENT_ATTEMPTS - attempts)")
    auto

declare attempt_loop.simps [simp del]

text \<open>
  The \<open>for word in sorted_words\<close> loop: \<open>None\<close> is the early \<open>return None, None\<close> taken
  when a word was not placed.
\<close>

fun place_words ::
  "rand_source \<Rightarrow> int \<Rightarrow> string list \<Rightarrow> grid \<Rightarrow> placement list \<Rightarrow> nat
     \<Rightarrow> py_error + ((grid \<times> placement list) option \<times> nat)" where
  "place_words src grid_size [] g placed_words k = Inr (Some (g, placed_words), k)"
| "place_words src grid_size (word # rest) g placed_words k =
     (case attempt_loop src grid_size word g 0 k of
        Inl e \<Rightarrow> Inl e
      | Inr (None, g', attempts, k') \<Rightarrow> Inr (None, k')
      | Inr (Some p, g', attempts, k') \<Rightarrow>
          place_words src grid_size rest g' (placed_words @ [p]) k')"

text \<open>
  \<open>fill_empty_cells\<close>: the cells in row-major order; a draw is made for a blank cell only.
\<close>

fun fill_row :: "rand_source \<Rightarrow> char list \<Rightarrow> nat \<Rightarrow> char list \<times> nat" where
  "fill_row src [] k = ([], k)"
| "fill_row src (x # xs) k =
     (if x = BLANK
      then (let (ys, k') = fill_row src xs (Suc k)
            in (ALPHABET ! (src k mod length ALPHABET) # ys, k'))
      else (let (ys, k') = fill_row src xs k in (x # ys, k')))"

fun fill_empty_cells :: "rand_source \<Rightarrow> grid \<Rightarrow> nat \<Rightarrow> grid \<times> nat" where
  "fill_empty_cells src [] k = ([], k)"
| "fill_empty_cells src (row # rows) k =
     (let (row', k1) = fill_row src row k;
          (rows', k2) = fill_empty_cells src rows k1
      in (row' # rows', k2))"

text \<open>
  \<open>sorted(valid_words, key=len, reverse=True)\<close>: a stable sort, so words of equal length
  keep their order; CPython reverses, sorts ascending and reverses again.
\<close>

definition sorted_by_len_desc :: "string list \<Rightarrow> string list" where
  "sorted_by_len_desc ws = rev (sort_key length (rev ws))"

text \<open>The outcome: \<open>FAILURE\<close> is the pair \<open>(None, None)\<close>.\<close>

datatype gen_result = FAILURE | SUCCESS grid "placement list"

definition blank_grid :: "int \<Rightarrow> grid" where
  "blank_grid grid_size = replicate (nat grid_size) (replicate (nat grid_size) BLANK)"

definition generate_word_search ::
  "rand_source \<Rightarrow> nat \<Rightarrow> int \<Rightarrow> string list \<Rightarrow> py_error + (gen_result \<times> nat)" where
  "generate_word_search src k grid_size words =
     (let valid_words = filter (\<lambda>w. int (length w) \<le> grid_size) words
      in if length valid_words < length words then Inr (FAILURE, k)
         else
           (case place_words src grid_size (sorted_by_len_desc valid_words)
                   (blank_grid grid_size) [] k of
              Inl e \<Rightarrow> Inl e
            | Inr (None, k') \<Rightarrow> Inr (FAILURE, k')
            | Inr (Some (g, placed_words), k') \<Rightarrow>
                (let (g', k'') = fill_empty_cells src g k'
                 in Inr (SUCCESS g' placed_words, k''))))"

text \<open>A source that replays a list of numbers and then yields zeros.\<close>

definition replay :: "nat list \<Rightarrow> rand_source" where
  "replay xs n = (if n < length xs then xs ! n else 0)"

text \<open>
  The invariant of the placement loop for one recorded placement: the path is as long as
  the word, every cell of it lies inside the grid, and every letter of the word other
  than the blank sentinel is read back from its cell.
\<close>

definition placement_ok :: "grid \<Rightarrow> placement \<Rightarrow> bool" where
  "placement_ok g p =
     (length (pw_path p) = length (pw_word p) \<and>
      (\<forall>i<length (pw_word p).
         0 \<le> fst (pw_path p ! i) \<and> fst (pw_path p ! i) < int (length g) \<and>
         0 \<le> snd (pw_path p ! i) \<and> snd (pw_path p ! i) < int (length g) \<and>
         (pw_word p ! i \<noteq> BLANK \<longrightarrow>
            grid_get g (fst (pw_path p ! i)) (snd (pw_path p ! i)) = Inr (pw_word p ! i))))"

text \<open>What \<open>fill_empty_cells\<close> does to one cell.\<close>

definition filled :: "char \<Rightarrow> char \<Rightarrow> bool" where
  "filled x y = (y \<noteq> BLANK \<and> (x \<noteq> BLANK \<longrightarrow> y = x))"

section \<open>widgets.py: the drag state of PuzzleGrid\<close>

text \<open>
  The interaction fields of the widget. Its colours and its copies of the found and hint
  overlays only feed the drawing and are left out. \<open>cell_size\<close> is set to \<open>CELL_SIZE\<close>
  once and never changed. Scene positions are whole pixels.
\<close>

record puzzle_grid =
  pg_grid :: "grid option"
  pg_grid_size :: int
  is_dragging :: bool
  drag_start_cell :: "cell option"
  drag_current_cell :: "cell option"
  current_temp_path :: "cell list"

datatype mouse_button = LeftButton | RightButton | MiddleButton

text \<open>Truth value of \<open>self.grid\<close>: \<open>None\<close> and the empty list are false.\<close>

definition grid_truthy :: "grid option \<Rightarrow> bool" where
  "grid_truthy g = (case g of None \<Rightarrow> False | Some rows \<Rightarrow> rows \<noteq> [])"

definition get_cell_from_pos :: "puzzle_grid \<Rightarrow> int \<times> int \<Rightarrow> cell option" where
  "get_cell_from_pos w pos =
     (let (x, y) = pos;
          c = x div CELL_SIZE;
          r = y div CELL_SIZE
      in if 0 \<le> r \<and> r < pg_grid_size w \<and> 0 \<le> c \<and> c < pg_grid_size w
         then Some (r, c) else None)"

definition is_valid_drag_path :: "cell \<Rightarrow> cell \<Rightarrow> bool" where
  "is_valid_drag_path start end_cell =
     (let (r1, c1) = start;
          (r2, c2) = end_cell;
          dr = r2 - r1;
          dc = c2 - c1
      in dr = 0 \<or> dc = 0 \<or> \<bar>dr\<bar> = \<bar>dc\<bar>)"

text \<open>\<open>//\<close> is floor division, as \<open>div\<close> on \<open>int\<close> is.\<close>

definition get_path_between :: "int \<Rightarrow> cell \<Rightarrow> cell \<Rightarrow> cell list" where
  "get_path_between grid_size start end_cell =
     (let (r1, c1) = start;
          (r2, c2) = end_cell;
          dr = r2 - r1;
          dc = c2 - c1;
          steps = max \<bar>dr\<bar> \<bar>dc\<bar>
      in if steps = 0 then [start]
         else
           (let dr_step = (if dr \<noteq> 0 then dr div steps else 0);
                dc_step = (if dc \<noteq> 0 then dc div steps else 0)
            in filter (\<lambda>(r, c). 0 \<le> r \<and> r < grid_size \<and> 0 \<le> c \<and> c < grid_size)
                 (map (\<lambda>i. (r1 + dr_step * i, c1 + dc_step * i)) [0..steps])))"

text \<open>
  \<open>mousePressEvent\<close>, on the widget's own fields (it also emits \<open>puzzle_clicked\<close>, which
  the application answers by clearing the hints).
\<close>

definition mousePressEvent :: "puzzle_grid \<Rightarrow> mouse_button \<Rightarrow> int \<times> int \<Rightarrow> puzzle_grid" where
  "mousePressEvent w button pos =
     (if button = LeftButton \<and> grid_truthy (pg_grid w) then
        (case get_cell_from_pos w pos of
           None \<Rightarrow> w
         | Some cell \<Rightarrow>
             w\<lparr>is_dragging := True, drag_start_cell := Some cell,
               drag_current_cell := Some cell, current_temp_path := [cell]\<rparr>)
      else w)"

text \<open>
  \<open>mouseMoveEvent\<close>. Unpacking a start cell that is still \<open>None\<close> raises \<open>TypeError\<close>.
\<close>

definition mouseMoveEvent :: "puzzle_grid \<Rightarrow> int \<times> int \<Rightarrow> py_error + puzzle_grid" where
  "mouseMoveEvent w pos =
     (if is_dragging w \<and> grid_truthy (pg_grid w) then
        (case get_cell_from_pos w pos of
           None \<Rightarrow> Inr w
         | Some cell \<Rightarrow>
             if Some cell \<noteq> drag_current_cell w then
               (case drag_start_cell w of
                  None \<Rightarrow> Inl TypeError
                | Some start \<Rightarrow>
                    if is_valid_drag_path start cell
                    then Inr (w\<lparr>drag_current_cell := Some cell,
                                current_temp_path := get_path_between (pg_grid_size w) start cell\<rparr>)
                    else Inr w)
             else Inr w)
      else Inr w)"

text \<open>
  \<open>mouseReleaseEvent\<close>: the payload of the \<open>word_selected\<close> signal, if it is emitted, and
  the widget afterwards.
\<close>

definition mouseReleaseEvent :: "puzzle_grid \<Rightarrow> mouse_button \<Rightarrow> cell list option \<times> puzzle_grid" where
  "mouseReleaseEvent w button =
     (if button = LeftButton \<and> is_dragging w then
        (if current_temp_path w \<noteq> [] then Some (current_temp_path w) else None,
         w\<lparr>is_dragging := False, current_temp_path := []\<rparr>)
      else (None, w))"

text \<open>
  The path of the specification: the inclusive line from start to end, one cell per step,
  each axis stepping by the sign of its delta, \<open>max(|\<Delta>row|, |\<Delta>col|)\<close> steps long, the
  cells outside the grid dropped.
\<close>

definition line_path :: "int \<Rightarrow> cell \<Rightarrow> cell \<Rightarrow> cell list" where
  "line_path grid_size start end_cell =
     filter (\<lambda>x. 0 \<le> fst x \<and> fst x < grid_size \<and> 0 \<le> snd x \<and> snd x < grid_size)
       (map (\<lambda>i. (fst start + sgn (fst end_cell - fst start) * i,
                   snd start + sgn (snd end_cell - snd start) * i))
          [0..max \<bar>fst end_cell - fst start\<bar> \<bar>snd end_cell - snd start\<bar>])"

section \<open>main.py: the puzzle and solver state of WordSearchApp\<close>

text \<open>
  The fields of \<open>WordSearchApp\<close> that hold the puzzle and the solving session, under
  their names with the prefix \<open>app_\<close>; \<open>app_size_spin\<close> is the value shown by the size
  spin box. Message boxes and the status bar are reports to the user and change no field.
\<close>

record app_state =
  app_grid :: "grid option"
  app_words :: "string set"
  app_placed_words :: "placement list"
  app_grid_size :: int
  app_unfound_words :: "string set"
  app_found_words :: "string set"
  app_found_paths :: "cell set set"
  app_hint_paths :: "cell set set"
  app_selected_word :: "string option"
  app_size_spin :: int

definition MIN_GRID_SIZE :: int where
  "MIN_GRID_SIZE = 10"

definition MAX_GRID_SIZE :: int where
  "MAX_GRID_SIZE = 25"

text \<open>\<open>''.join([self.grid[r][c] for r, c in path])\<close>\<close>

fun path_letters :: "grid \<Rightarrow> cell list \<Rightarrow> py_error + string" where
  "path_letters g [] = Inr []"
| "path_letters g ((r, c) # rest) =
     (case grid_get g r c of
        Inl e \<Rightarrow> Inl e
      | Inr x \<Rightarrow>
          (case path_letters g rest of
             Inl e \<Rightarrow> Inl e
           | Inr xs \<Rightarrow> Inr (x # xs)))"

text \<open>
  \<open>on_word_selected\<close>, the slot of the widget's \<open>word_selected\<close> signal. Indexing a grid
  that is \<open>None\<close> raises \<open>TypeError\<close>; the letters are read before any field is written.
\<close>

definition on_word_selected :: "app_state \<Rightarrow> cell list \<Rightarrow> py_error + app_state" where
  "on_word_selected a path =
     (case app_grid a of
        None \<Rightarrow> Inl TypeError
      | Some g \<Rightarrow>
          (case path_letters g path of
             Inl e \<Rightarrow> Inl e
           | Inr word \<Rightarrow>
               if word \<in> app_words a \<and> word \<notin> app_found_words a then
                 Inr (a\<lparr>app_found_words := insert word (app_found_words a),
                        app_found_paths := insert (set path) (app_found_paths a),
                        app_unfound_words := app_unfound_words a - {word}\<rparr>)
               else
                 (let word_rev = rev word
                  in if word_rev \<in> app_words a \<and> word_rev \<notin> app_found_words a then
                       Inr (a\<lparr>app_found_words := insert word_rev (app_found_words a),
                              app_found_paths := insert (set path) (app_found_paths a),
                              app_unfound_words := app_unfound_words a - {word_rev}\<rparr>)
                     else Inr a)))"

text \<open>What \<open>give_hint\<close> tells the user: the message box shown, or the hint itself.\<close>

datatype hint_report = NoPuzzle | NoWordSelected | AlreadyFound | HintShown | WordNotFound

text \<open>
  \<open>give_hint\<close>. The loop over \<open>placed_words\<close> stops at the first entry for the selected
  word; \<open>path[0]\<close> of an empty path raises \<open>IndexError\<close>.
\<close>

definition give_hint :: "app_state \<Rightarrow> py_error + (hint_report \<times> app_state)" where
  "give_hint a =
     (if \<not> grid_truthy (app_grid a) then Inr (NoPuzzle, a)
      else
        (case app_selected_word a of
           None \<Rightarrow> Inr (NoWordSelected, a)
         | Some selected \<Rightarrow>
             if selected = [] then Inr (NoWordSelected, a)
             else if selected \<in> app_found_words a then Inr (AlreadyFound, a)
             else
               (case find (\<lambda>word_data. pw_word word_data = selected) (app_placed_words a) of
                  None \<Rightarrow> Inr (WordNotFound, a)
                | Some word_data \<Rightarrow>
                    (case py_getitem (pw_path word_data) 0 of
                       Inl e \<Rightarrow> Inl e
                     | Inr first_cell \<Rightarrow>
                         Inr (HintShown, a\<lparr>app_hint_paths := {{first_cell}}\<rparr>)))))"

text \<open>
  The end of a selection: \<open>mouseReleaseEvent\<close> with \<open>word_selected\<close> connected to
  \<open>on_word_selected\<close>. The slot runs inside the emit, before the widget clears its
  path. An exception of the slot is returned as it is; what the toolkit does with it
  afterwards is not modelled.
\<close>

definition release_and_select ::
  "puzzle_grid \<Rightarrow> app_state \<Rightarrow> mouse_button \<Rightarrow> py_error + (puzzle_grid \<times> app_state)" where
  "release_and_select w a button =
     (case mouseReleaseEvent w button of
        (None, w') \<Rightarrow> Inr (w', a)
      | (Some path, w') \<Rightarrow>
          (case on_word_selected a path of
             Inl e \<Rightarrow> Inl e
           | Inr a' \<Rightarrow> Inr (w', a')))"

section \<open>main.py: loading a saved puzzle\<close>

text \<open>
  The dict read by \<open>json.load\<close>, seen through its four keys: \<open>None\<close> is a missing key.
  The values are taken to have the shapes \<open>save_puzzle\<close> writes.
\<close>

record puzzle_data =
  pd_grid :: "grid option"
  pd_words :: "string list option"
  pd_placed_words :: "placement list option"
  pd_grid_size :: "int option"

text \<open>What the chosen file gives: \<open>open\<close> or \<open>json.load\<close> raises, or a dict is read.\<close>

datatype file_read = Unreadable | Parsed puzzle_data

text \<open>
  \<open>load_puzzle\<close>. The argument is \<open>None\<close> when the file dialog was cancelled. The result
  is the exception caught by \<open>except Exception\<close> and shown in the error box (\<open>None\<close> when
  none was raised) and the state afterwards. The fields are assigned one by one, in the
  order of the source, each right after its key is read. \<open>size_spin.setValue\<close> clamps to
  the range of the spin box, and a changed value comes back through
  \<open>on_size_spin_changed\<close> into \<open>grid_size\<close>.
\<close>

definition load_puzzle :: "app_state \<Rightarrow> file_read option \<Rightarrow> py_error option \<times> app_state" where
  "load_puzzle a chosen =
     (case chosen of
        None \<Rightarrow> (None, a)
      | Some Unreadable \<Rightarrow> (Some JSONDecodeError, a)
      | Some (Parsed puzzle_data) \<Rightarrow>
          (case pd_grid puzzle_data of
             None \<Rightarrow> (Some (KeyError ''grid''), a)
           | Some g \<Rightarrow>
               (let a1 = a\<lparr>app_grid := Some g\<rparr>
                in case pd_words puzzle_data of
                     None \<Rightarrow> (Some (KeyError ''words''), a1)
                   | Some ws \<Rightarrow>
                       (let a2 = a1\<lparr>app_words := set ws\<rparr>
                        in case pd_placed_words puzzle_data of
                             None \<Rightarrow> (Some (KeyError ''placed_words''), a2)
                           | Some ps \<Rightarrow>
                               (let a3 = a2\<lparr>app_placed_words := ps\<rparr>
                                in case pd_grid_size puzzle_data of
                                     None \<Rightarrow> (Some (KeyError ''grid_size''), a3)
                                   | Some n \<Rightarrow>
                                       (let shown = max MIN_GRID_SIZE (min MAX_GRID_SIZE n)
                                        in (None,
                                            a3\<lparr>app_grid_size :=
                                                  (if shown \<noteq> app_size_spin a3 then shown else n),
                                                app_unfound_words := set ws,
                                                app_found_words := {},
                                                app_found_paths := {},
                                                app_hint_paths := {},
                                                app_size_spin := shown\<rparr>)))))))"

section \<open>Reading and writing cells\<close>

lemma cell_ok_cong: "map length g' = map length g \<Longrightarrow> cell_ok g' x = cell_ok g x"
proof -
  assume eq: "map length g' = map length g"
  then have len: "length g' = length g"
    by (metis length_map)
  have "length (g' ! i) = length (g ! i)" if "i < length g" for i
    using that eq len by (metis nth_map)
  then show ?thesis
    by (auto simp: cell_ok_def len)
qed

lemma grid_get_ok: "cell_ok g (r, c) \<Longrightarrow> grid_get g r c = Inr (g ! nat r ! nat c)"
  by (auto simp: cell_ok_def grid_get_def py_getitem_def Let_def)

lemma grid_get_Inr_ok:
  assumes "grid_get g r c = Inr v" "0 \<le> r" "0 \<le> c"
  shows "cell_ok g (r, c)"
  using assms
  by (auto simp: cell_ok_def grid_get_def py_getitem_def Let_def split: if_splits sum.splits)

lemma grid_set_ok:
  "cell_ok g (r, c) \<Longrightarrow> grid_set g r c v = Inr (g[nat r := (g ! nat r)[nat c := v]])"
  by (auto simp: cell_ok_def grid_set_def py_getitem_def py_setitem_def Let_def)

lemma map_length_update:
  "map length (g[i := (g ! i)[j := v]]) = map length g"
proof (cases "i < length g")
  case True
  then have "(map length g)[i := length (g ! i)] = map length g"
    by (metis length_map list_update_id nth_map)
  then show ?thesis by (simp add: map_update)
next
  case False
  then have "length g \<le> i" by simp
  then show ?thesis by (simp add: list_update_beyond)
qed

lemma grid_get_nonneg:
  assumes "0 \<le> r" "0 \<le> c"
  shows "grid_get g r c =
           (if nat r < length g \<and> nat c < length (g ! nat r)
            then Inr (g ! nat r ! nat c) else Inl IndexError)"
  using assms by (auto simp: grid_get_def py_getitem_def Let_def)

lemma grid_get_update:
  assumes "cell_ok g (r, c)" "0 \<le> r'" "0 \<le> c'"
  shows "grid_get (g[nat r := (g ! nat r)[nat c := v]]) r' c' =
           (if r' = r \<and> c' = c then Inr v else grid_get g r' c')"
proof -
  consider "r' = r" "c' = c" | "r' = r" "nat c' \<noteq> nat c" "c' \<noteq> c" | "nat r' \<noteq> nat r" "r' \<noteq> r"
    using assms by (cases "r' = r"; cases "c' = c") (auto simp: cell_ok_def nat_eq_iff)
  then show ?thesis
  proof cases
    case 1
    with assms show ?thesis
      by (simp add: grid_get_nonneg cell_ok_def)
  next
    case 2
    with assms show ?thesis
      by (simp add: grid_get_nonneg cell_ok_def)
  next
    case 3
    with assms show ?thesis
      by (simp add: grid_get_nonneg)
  qed
qed

section \<open>can\_place\_word accepts exactly the free or matching in-bounds runs\<close>

lemma all_less_length_Cons:
  "(\<forall>i<length (x # xs). P i) \<longleftrightarrow> P 0 \<and> (\<forall>i<length xs. P (Suc i))"
  by (auto simp: less_Suc_eq_0_disj)

lemma can_place_loop_True_iff:
  "can_place_loop g sr sc d (enumerate n w) = Inr True \<longleftrightarrow>
     (\<forall>i<length w.
        cell_accepts g (sr + int (n + i) * fst d) (sc + int (n + i) * snd d) (w ! i))"
proof (induction w arbitrary: n)
  case Nil
  show ?case by simp
next
  case (Cons x xs)
  show ?case
    unfolding all_less_length_Cons
    using Cons.IH [of "Suc n"]
    by (auto simp: Let_def cell_accepts_def split: sum.splits)
qed

lemma can_place_loop_square:
  assumes "square_grid g"
  shows "\<exists>b. can_place_loop g sr sc d es = Inr b"
proof (induction es)
  case Nil
  have "can_place_loop g sr sc d [] = Inr True" by simp
  then show ?case by blast
next
  case (Cons e es)
  obtain i l where e: "e = (i, l)" by (cases e)
  let ?row = "sr + int i * fst d" and ?col = "sc + int i * snd d"
  show ?case
  proof (cases "0 \<le> ?row \<and> ?row < int (length g) \<and> 0 \<le> ?col \<and> ?col < int (length g)")
    case False
    then have "can_place_loop g sr sc d (e # es) = Inr False"
      by (auto simp: e Let_def)
    then show ?thesis by blast
  next
    case True
    then have "nat ?row < length g" by linarith
    then have "length (g ! nat ?row) = length g"
      using assms by (simp add: square_grid_def)
    with True have "cell_ok g (?row, ?col)"
      by (simp add: cell_ok_def nat_less_iff)
    then have "grid_get g ?row ?col = Inr (g ! nat ?row ! nat ?col)"
      by (rule grid_get_ok)
    moreover obtain b where "can_place_loop g sr sc d es = Inr b"
      using Cons.IH by blast
    ultimately have "can_place_loop g sr sc d (e # es) =
        Inr (\<not> (g ! nat ?row ! nat ?col \<noteq> BLANK \<and> g ! nat ?row ! nat ?col \<noteq> l) \<and> b)"
      using True by (simp add: e Let_def)
    then show ?thesis by blast
  qed
qed

section \<open>place\_word writes the path and nothing else\<close>

lemma place_loop_effect:
  assumes "\<forall>(i, l) \<in> set es. cell_ok g (sr + int i * fst d, sc + int i * snd d)"
  shows "\<exists>g'. place_loop g sr sc d es = Inr g' \<and> map length g' = map length g \<and>
           (\<forall>r c. 0 \<le> r \<longrightarrow> 0 \<le> c \<longrightarrow>
              grid_get g' r c =
                (case map_of (rev (path_entries sr sc d es)) (r, c) of
                   None \<Rightarrow> grid_get g r c
                 | Some l \<Rightarrow> Inr l))"
  using assms
proof (induction es arbitrary: g)
  case Nil
  then show ?case by (simp add: path_entries_def)
next
  case (Cons e es)
  obtain i l where e: "e = (i, l)" by (cases e)
  define x where "x = (sr + int i * fst d, sc + int i * snd d)"
  define g1 where "g1 = g[nat (fst x) := (g ! nat (fst x))[nat (snd x) := l]]"
  have ok: "cell_ok g (fst x, snd x)"
    using Cons.prems by (simp add: e x_def)
  have set1: "grid_set g (sr + int i * fst d) (sc + int i * snd d) l = Inr g1"
    using grid_set_ok [OF ok] by (simp add: g1_def x_def)
  have len1: "map length g1 = map length g"
    unfolding g1_def by (rule map_length_update)
  have "\<forall>(i, l) \<in> set es. cell_ok g1 (sr + int i * fst d, sc + int i * snd d)"
    using Cons.prems cell_ok_cong [OF len1] by auto
  from Cons.IH [OF this] obtain g' where
    run: "place_loop g1 sr sc d es = Inr g'" and
    len: "map length g' = map length g1" and
    get: "\<And>r c. 0 \<le> r \<Longrightarrow> 0 \<le> c \<Longrightarrow>
            grid_get g' r c =
              (case map_of (rev (path_entries sr sc d es)) (r, c) of
                 None \<Rightarrow> grid_get g1 r c
               | Some l \<Rightarrow> Inr l)"
    by blast
  have get1: "grid_get g1 r c = (if (r, c) = x then Inr l else grid_get g r c)"
    if "0 \<le> r" "0 \<le> c" for r c
    using grid_get_update [OF ok that] by (auto simp: g1_def x_def)
  have entries: "rev (path_entries sr sc d (e # es)) = rev (path_entries sr sc d es) @ [(x, l)]"
    by (simp add: path_entries_def e x_def)
  have "grid_get g' r c =
          (case map_of (rev (path_entries sr sc d (e # es))) (r, c) of
             None \<Rightarrow> grid_get g r c
           | Some l \<Rightarrow> Inr l)"
    if "0 \<le> r" "0 \<le> c" for r c
    unfolding entries
    using get [OF that] get1 [OF that]
    by (simp add: map_add_def split: option.splits)
  moreover have "place_loop g sr sc d (e # es) = Inr g'"
    using set1 run by (simp add: e)
  ultimately show ?case
    using len len1 by simp
qed

lemma path_entries_keys:
  "map fst (path_entries sr sc d (enumerate 0 w)) = get_word_path w sr sc d"
  by (rule nth_equalityI)
    (simp_all add: path_entries_def get_word_path_def nth_enumerate_eq case_prod_unfold)

lemma place_word_effect:
  assumes "can_place_word g word sr sc d = Inr True"
  shows "\<exists>g'. place_word g word sr sc d = Inr g' \<and> map length g' = map length g \<and>
           (\<forall>r c. 0 \<le> r \<longrightarrow> 0 \<le> c \<longrightarrow>
              grid_get g' r c =
                (case map_of (rev (path_entries sr sc d (enumerate 0 word))) (r, c) of
                   None \<Rightarrow> grid_get g r c
                 | Some l \<Rightarrow> Inr l))"
proof -
  have acc: "cell_accepts g (sr + int i * fst d) (sc + int i * snd d) (word ! i)"
    if "i < length word" for i
    using assms that can_place_loop_True_iff [of g sr sc d 0 word]
    by (simp add: can_place_word_def)
  have "cell_ok g (sr + int i * fst d, sc + int i * snd d)" if "i < length word" for i
    using acc [OF that] grid_get_Inr_ok
    by (auto simp: cell_accepts_def)
  then have "\<forall>(i, l) \<in> set (enumerate 0 word).
      cell_ok g (sr + int i * fst d, sc + int i * snd d)"
    by (auto simp: in_set_enumerate_eq)
  from place_loop_effect [OF this] show ?thesis
    by (simp add: place_word_def)
qed

lemma get_word_path_distinct:
  assumes "d \<noteq> (0, 0)"
  shows "distinct (get_word_path w sr sc d)"
proof -
  obtain a b where d: "d = (a, b)" by (cases d)
  have ab: "a \<noteq> 0 \<or> b \<noteq> 0" using assms d by simp
  have eq: "i = j"
    if "(sr + int i * a, sc + int i * b) = (sr + int j * a, sc + int j * b)" for i j
  proof -
    from that have "int i * a = int j * a" "int i * b = int j * b" by simp_all
    then have "a = 0 \<or> int i = int j" "b = 0 \<or> int i = int j"
      by (simp_all only: mult_cancel_right)
    with ab have "int i = int j" by blast
    then show ?thesis by (simp only: int_int_eq)
  qed
  have "inj_on (\<lambda>i. (sr + int i * a, sc + int i * b)) (set [0..<length w])"
    by (rule inj_onI) (rule eq)
  then show ?thesis
    unfolding get_word_path_def d fst_conv snd_conv
    by (simp only: distinct_map distinct_upt simp_thms)
qed

lemma map_of_entries_on_path:
  assumes "d \<noteq> (0, 0)" "i < length w"
  shows "map_of (rev (path_entries sr sc d (enumerate 0 w)))
           (sr + int i * fst d, sc + int i * snd d) = Some (w ! i)"
proof -
  have "distinct (map fst (rev (path_entries sr sc d (enumerate 0 w))))"
    using get_word_path_distinct [OF assms(1)]
    by (simp add: rev_map [symmetric] path_entries_keys)
  moreover have "(i, w ! i) \<in> set (enumerate 0 w)"
    using assms(2) by (simp add: in_set_enumerate_eq)
  then have "((sr + int i * fst d, sc + int i * snd d), w ! i)
      \<in> set (rev (path_entries sr sc d (enumerate 0 w)))"
    by (force simp: path_entries_def)
  ultimately show ?thesis
    by (simp only: map_of_eq_Some_iff)
qed

lemma map_of_entries_off_path:
  assumes "x \<notin> set (get_word_path w sr sc d)"
  shows "map_of (rev (path_entries sr sc d (enumerate 0 w))) x = None"
proof -
  have "fst ` set (rev (path_entries sr sc d (enumerate 0 w))) = set (get_word_path w sr sc d)"
    using path_entries_keys [of sr sc d w] by (metis set_map set_rev)
  with assms show ?thesis
    by (simp only: map_of_eq_None_iff) simp
qed

lemma map_of_entries_still:
  assumes "w \<noteq> []"
  shows "map_of (rev (path_entries sr sc (0, 0) (enumerate 0 w))) (sr, sc) = Some (last w)"
proof -
  have "enumerate 0 w = enumerate 0 (butlast w) @ [(length (butlast w), last w)]"
    using assms enumerate_append_eq [of 0 "butlast w" "[last w]"] by simp
  then show ?thesis
    by (simp add: path_entries_def)
qed

text \<open>
  C5. \<open>can_place_word\<close> returns \<open>True\<close> if and only if every cell the word would occupy
  lies within the grid bounds \<open>[0, size)\<^sup>2\<close> and is either blank or already holds the
  corresponding letter of the word. On a square grid it never raises: the answer is
  \<open>True\<close> or \<open>False\<close>.
\<close>

theorem can_place_word_iff_accepts:
  "(can_place_word g word start_row start_col (dr, dc) = Inr True \<longleftrightarrow>
      (\<forall>i<length word.
         cell_accepts g (start_row + int i * dr) (start_col + int i * dc) (word ! i))) \<and>
   (square_grid g \<longrightarrow> (\<exists>b. can_place_word g word start_row start_col (dr, dc) = Inr b))"
  using can_place_loop_True_iff [of g start_row start_col "(dr, dc)" 0 word]
    can_place_loop_square [of g start_row start_col "(dr, dc)" "enumerate 0 word"]
  by (simp add: can_place_word_def)

theorem can_place_word_iff_accepts_witness:
  "can_place_word [''C  '', ''   '', ''   ''] ''CAT'' 0 0 (0, 1) = Inr True \<and>
   cell_accepts [''C  '', ''   '', ''   ''] 0 2 (CHR ''T'') \<and>
   can_place_word [''C  '', ''   '', ''   ''] ''CAT'' 0 1 (0, 1) = Inr False"
proof -
  let ?g = "[''C  '', ''   '', ''   '']"
  have yes: "can_place_word ?g ''CAT'' 0 0 (0, 1) = Inr True"
    by code_simp
  have no: "can_place_word ?g ''CAT'' 0 1 (0, 1) = Inr False"
    by code_simp
  have "\<forall>i<length ''CAT''. cell_accepts ?g (0 + int i * 0) (0 + int i * 1) (''CAT'' ! i)"
    using can_place_word_iff_accepts [of ?g "''CAT''" 0 0 0 1] yes by blast
  from this [rule_format, of 2]
  have "cell_accepts ?g (0 + int 2 * 0) (0 + int 2 * 1) (''CAT'' ! 2)"
    by simp
  then have "cell_accepts ?g 0 2 (CHR ''T'')"
    by simp
  with yes no show ?thesis by blast
qed

text \<open>
  C10. Whenever \<open>can_place_word\<close> holds, \<open>place_word\<close> completes without raising, keeps
  the shape of the grid, leaves \<open>word[i]\<close> in the cell
  \<open>(start_row + i*dr, start_col + i*dc)\<close> for every index \<open>i\<close> of the word, and every
  cell that is not on the path reads as it did before the call. (For the zero vector,
  which is not a direction, all writes go to the start cell and the last one stays.)
\<close>

theorem place_word_writes_path_only:
  assumes "can_place_word g word start_row start_col d = Inr True"
  shows "\<exists>g'. place_word g word start_row start_col d = Inr g' \<and>
           map length g' = map length g \<and>
           (d \<noteq> (0, 0) \<longrightarrow>
              (\<forall>i<length word.
                 grid_get g' (start_row + int i * fst d) (start_col + int i * snd d)
                   = Inr (word ! i))) \<and>
           (d = (0, 0) \<and> word \<noteq> [] \<longrightarrow> grid_get g' start_row start_col = Inr (last word)) \<and>
           (\<forall>r c. 0 \<le> r \<longrightarrow> 0 \<le> c \<longrightarrow> (r, c) \<notin> set (get_word_path word start_row start_col d) \<longrightarrow>
              grid_get g' r c = grid_get g r c)"
proof -
  from place_word_effect [OF assms] obtain g' where
    run: "place_word g word start_row start_col d = Inr g'" and
    len: "map length g' = map length g" and
    get: "\<And>r c. 0 \<le> r \<Longrightarrow> 0 \<le> c \<Longrightarrow>
            grid_get g' r c =
              (case map_of (rev (path_entries start_row start_col d (enumerate 0 word))) (r, c) of
                 None \<Rightarrow> grid_get g r c
               | Some l \<Rightarrow> Inr l)"
    by blast
  have nonneg: "0 \<le> start_row + int i * fst d \<and> 0 \<le> start_col + int i * snd d"
    if "i < length word" for i
    using assms that can_place_loop_True_iff [of g start_row start_col d 0 word]
    by (simp add: can_place_word_def cell_accepts_def)
  have on_path: "grid_get g' (start_row + int i * fst d) (start_col + int i * snd d)
      = Inr (word ! i)"
    if "d \<noteq> (0, 0)" "i < length word" for i
    using get nonneg [OF that(2)] map_of_entries_on_path [OF that] by simp
  have still: "grid_get g' start_row start_col = Inr (last word)"
    if "d = (0, 0)" "word \<noteq> []"
  proof -
    have "0 < length word" using that(2) by simp
    from nonneg [OF this] have "0 \<le> start_row" "0 \<le> start_col" by simp_all
    then show ?thesis
      using get map_of_entries_still [OF that(2)] that(1) by simp
  qed
  have frame: "grid_get g' r c = grid_get g r c"
    if "0 \<le> r" "0 \<le> c" "(r, c) \<notin> set (get_word_path word start_row start_col d)" for r c
    using get [OF that(1,2)] map_of_entries_off_path [OF that(3)] by simp
  from run len on_path still frame show ?thesis
    by blast
qed

theorem place_word_writes_path_only_witness:
  "can_place_word [''C  '', ''   '', ''   ''] ''CAT'' 0 0 (1, 1) = Inr True \<and>
   (\<exists>g'. place_word [''C  '', ''   '', ''   ''] ''CAT'' 0 0 (1, 1) = Inr g' \<and>
      grid_get g' 2 2 = Inr (CHR ''T'') \<and> grid_get g' 0 1 = Inr BLANK)"
proof -
  let ?g = "[''C  '', ''   '', ''   '']"
  have yes: "can_place_word ?g ''CAT'' 0 0 (1, 1) = Inr True"
    by code_simp
  from place_word_writes_path_only [OF yes] obtain g' where
    run: "place_word ?g ''CAT'' 0 0 (1, 1) = Inr g'" and
    on_path: "\<And>i. i < length ''CAT'' \<Longrightarrow>
        grid_get g' (0 + int i * fst (1, 1)) (0 + int i * snd (1, 1)) = Inr (''CAT'' ! i)" and
    frame: "\<And>r c. 0 \<le> r \<Longrightarrow> 0 \<le> c \<Longrightarrow> (r, c) \<notin> set (get_word_path ''CAT'' 0 0 (1, 1)) \<Longrightarrow>
        grid_get g' r c = grid_get ?g r c"
    by auto
  have "grid_get g' 2 2 = Inr (CHR ''T'')"
    using on_path [of 2] by simp
  moreover have "grid_get g' 0 1 = grid_get ?g 0 1"
    by (rule frame) (simp_all add: get_word_path_def upt_rec)
  then have "grid_get g' 0 1 = Inr BLANK"
    by (simp add: grid_get_def py_getitem_def BLANK_def)
  ultimately show ?thesis
    using yes run by blast
qed

section \<open>The retry loop and the all-or-nothing outcome\<close>

lemma randint_Inr:
  assumes "randint src k a b = Inr (v, k')"
  shows "k' = Suc k \<and> a \<le> v \<and> v \<le> b"
proof -
  from assms have ab: "a \<le> b" and v: "v = a + int (src k mod nat (b - a + 1))" and k: "k' = Suc k"
    by (auto simp: randint_def split: if_splits)
  have "src k mod nat (b - a + 1) < nat (b - a + 1)"
    using ab by (intro mod_less_divisor) simp
  then have "int (src k mod nat (b - a + 1)) < b - a + 1"
    using ab by linarith
  with v k show ?thesis by simp
qed

lemma choice_Inr:
  assumes "choice src k xs = Inr (v, k')"
  shows "k' = Suc k \<and> v \<in> set xs"
  using assms by (auto simp: choice_def split: if_splits)

text \<open>What one run of the retry loop can return.\<close>

lemma attempt_loop_result:
  assumes "attempt_loop src gs word g a k = Inr (r, g', a', k')"
  shows "a \<le> a' \<and> k' = k + 3 * (a' - a) \<and> (a \<le> MAX_PLACEMENT_ATTEMPTS \<longrightarrow> a' \<le> MAX_PLACEMENT_ATTEMPTS) \<and>
         (case r of
            None \<Rightarrow> MAX_PLACEMENT_ATTEMPTS \<le> a' \<and> g' = g
          | Some p \<Rightarrow>
              (\<exists>sr sc d. d \<in> set DIRECTIONS \<and>
                 can_place_word g word sr sc d = Inr True \<and>
                 place_word g word sr sc d = Inr g' \<and>
                 p = \<lparr>pw_word = word, pw_path = get_word_path word sr sc d, pw_direction = d\<rparr>))"
  using assms
proof (induction src gs word g a k rule: attempt_loop.induct)
  case (1 src gs word g a k)
  show ?case
  proof (cases "a < MAX_PLACEMENT_ATTEMPTS")
    case False
    with "1.prems" show ?thesis
      by (simp add: attempt_loop.simps [of src gs word g a k])
  next
    case True
    from "1.prems" True obtain sr k1 sc k2 d k3 b where
      r1: "randint src k 0 (gs - 1) = Inr (sr, k1)" and
      r2: "randint src k1 0 (gs - 1) = Inr (sc, k2)" and
      r3: "choice src k2 DIRECTIONS = Inr (d, k3)" and
      cp: "can_place_word g word sr sc d = Inr b"
      by (auto simp: attempt_loop.simps [of src gs word g a k] split: sum.splits prod.splits)
    have k3: "k3 = k + 3" and d: "d \<in> set DIRECTIONS"
      using randint_Inr [OF r1] randint_Inr [OF r2] choice_Inr [OF r3] by simp_all
    show ?thesis
    proof (cases b)
      case True
      with "1.prems" \<open>a < MAX_PLACEMENT_ATTEMPTS\<close> r1 r2 r3 cp obtain
        pl: "place_word g word sr sc d = Inr g'" and
        res: "r = Some \<lparr>pw_word = word, pw_path = get_word_path word sr sc d, pw_direction = d\<rparr>"
          "a' = Suc a" "k' = k3"
        by (auto simp: attempt_loop.simps [of src gs word g a k] split: sum.splits)
      have "\<exists>sr' sc' d'. d' \<in> set DIRECTIONS \<and>
                 can_place_word g word sr' sc' d' = Inr True \<and>
                 place_word g word sr' sc' d' = Inr g' \<and>
                 \<lparr>pw_word = word, pw_path = get_word_path word sr sc d, pw_direction = d\<rparr> =
                 \<lparr>pw_word = word, pw_path = get_word_path word sr' sc' d', pw_direction = d'\<rparr>"
      proof (intro exI conjI)
        show "d \<in> set DIRECTIONS" by (rule d)
        show "can_place_word g word sr sc d = Inr True" using True cp by simp
        show "place_word g word sr sc d = Inr g'" by (rule pl)
      qed (rule refl)
      with res k3 \<open>a < MAX_PLACEMENT_ATTEMPTS\<close> show ?thesis
        by simp
    next
      case False
      with "1.prems" \<open>a < MAX_PLACEMENT_ATTEMPTS\<close> r1 r2 r3 cp
      have rec: "attempt_loop src gs word g (Suc a) k3 = Inr (r, g', a', k')"
        by (simp add: attempt_loop.simps [of src gs word g a k])
      from "1.IH" [OF \<open>a < MAX_PLACEMENT_ATTEMPTS\<close> r1 refl r2 refl r3 refl cp _ rec] False
      have ih: "Suc a \<le> a' \<and> k' = k3 + 3 * (a' - Suc a) \<and>
          (Suc a \<le> MAX_PLACEMENT_ATTEMPTS \<longrightarrow> a' \<le> MAX_PLACEMENT_ATTEMPTS) \<and>
          (case r of
            None \<Rightarrow> MAX_PLACEMENT_ATTEMPTS \<le> a' \<and> g' = g
          | Some p \<Rightarrow>
              (\<exists>sr sc d. d \<in> set DIRECTIONS \<and>
                 can_place_word g word sr sc d = Inr True \<and>
                 place_word g word sr sc d = Inr g' \<and>
                 p = \<lparr>pw_word = word, pw_path = get_word_path word sr sc d, pw_direction = d\<rparr>))"
        by simp
      have "k' = k + 3 * (a' - a)" "a \<le> a'" "a' \<le> MAX_PLACEMENT_ATTEMPTS"
        using ih k3 \<open>a < MAX_PLACEMENT_ATTEMPTS\<close> by auto
      with ih show ?thesis by simp
    qed
  qed
qed

lemma place_words_append:
  "place_words src gs (xs @ ys) g pl k =
     (case place_words src gs xs g pl k of
        Inl e \<Rightarrow> Inl e
      | Inr (None, k') \<Rightarrow> Inr (None, k')
      | Inr (Some (g', pl'), k') \<Rightarrow> place_words src gs ys g' pl' k')"
  by (induction xs arbitrary: g pl k) (auto split: sum.splits option.splits prod.splits)

lemma filter_fits_all:
  assumes "\<forall>w \<in> set words. int (length w) \<le> grid_size"
  shows "filter (\<lambda>w. int (length w) \<le> grid_size) words = words"
  using assms by (simp add: filter_id_conv)

text \<open>
  C3. If some word of the list is longer than the grid size, \<open>generate_word_search\<close>
  returns the single \<open>FAILURE\<close> outcome, and the random source has not been consulted:
  no word was skipped and no placement of the other words was attempted.
\<close>

theorem too_long_word_fails:
  assumes "w \<in> set words" and "grid_size < int (length w)"
  shows "generate_word_search src k grid_size words = Inr (FAILURE, k)"
proof -
  have "\<not> int (length w) \<le> grid_size"
    using assms(2) by simp
  with assms(1) have "length (filter (\<lambda>w. int (length w) \<le> grid_size) words) < length words"
    by (rule length_filter_less)
  then show ?thesis
    by (simp add: generate_word_search_def)
qed

theorem too_long_word_fails_witness:
  "''HORSE'' \<in> set [''CAT'', ''HORSE'', ''OX''] \<and> (3::int) < int (length ''HORSE'') \<and>
   generate_word_search (\<lambda>n. n) 7 3 [''CAT'', ''HORSE'', ''OX''] = Inr (FAILURE, 7)"
proof -
  have h1: "''HORSE'' \<in> set [''CAT'', ''HORSE'', ''OX'']" by simp
  have h2: "(3::int) < int (length ''HORSE'')" by simp
  from too_long_word_fails [OF h1 h2] h1 h2 show ?thesis by blast
qed

text \<open>
  C4. For the word reached in the sorted placement order, the retry loop makes at most
  \<open>MAX_PLACEMENT_ATTEMPTS\<close> attempts, each drawing one (row, column, direction)
  candidate from the random source; if it ends without a placement the budget is spent
  and the whole generation returns \<open>FAILURE\<close>, which carries neither grid nor placements.
\<close>

theorem budget_exhausted_fails:
  assumes fits: "\<forall>w \<in> set words. int (length w) \<le> grid_size"
    and order: "sorted_by_len_desc words = before @ word # after"
    and earlier: "place_words src grid_size before (blank_grid grid_size) [] k = Inr (Some (g, placed), k1)"
    and loop: "attempt_loop src grid_size word g 0 k1 = Inr (r, g', attempts, k2)"
  shows "attempts \<le> MAX_PLACEMENT_ATTEMPTS \<and> k2 = k1 + 3 * attempts \<and>
         (r = None \<longrightarrow>
            attempts = MAX_PLACEMENT_ATTEMPTS \<and>
            generate_word_search src k grid_size words = Inr (FAILURE, k2))"
proof -
  from attempt_loop_result [OF loop]
  have bound: "attempts \<le> MAX_PLACEMENT_ATTEMPTS" and draws: "k2 = k1 + 3 * attempts"
    and spent: "r = None \<Longrightarrow> MAX_PLACEMENT_ATTEMPTS \<le> attempts"
    by (auto split: option.splits)
  have "generate_word_search src k grid_size words = Inr (FAILURE, k2)" if "r = None"
  proof -
    have "place_words src grid_size (word # after) g placed k1 = Inr (None, k2)"
      using loop that by simp
    then have "place_words src grid_size (before @ word # after) (blank_grid grid_size) [] k
        = Inr (None, k2)"
      using earlier by (simp add: place_words_append)
    then show ?thesis
      using order by (simp add: generate_word_search_def filter_fits_all [OF fits])
  qed
  with bound draws spent show ?thesis
    by auto
qed

theorem budget_exhausted_fails_witness:
  "sorted_by_len_desc [''A'', ''B''] = [''A''] @ ''B'' # [] \<and>
   attempt_loop (\<lambda>n. 0) 1 ''B'' [''A''] 0 3 = Inr (None, [''A''], 100, 303) \<and>
   generate_word_search (\<lambda>n. 0) 0 1 [''A'', ''B''] = Inr (FAILURE, 303)"
proof -
  have fits: "\<forall>w \<in> set [''A'', ''B'']. int (length w) \<le> 1" by simp
  have order: "sorted_by_len_desc [''A'', ''B''] = [''A''] @ ''B'' # []" by code_simp
  have earlier: "place_words (\<lambda>n. 0) 1 [''A''] (blank_grid 1) [] 0 =
      Inr (Some ([''A''], [\<lparr>pw_word = ''A'', pw_path = [(0, 0)], pw_direction = (0, 1)\<rparr>]), 3)"
    by code_simp
  have loop: "attempt_loop (\<lambda>n. 0) 1 ''B'' [''A''] 0 3 = Inr (None, [''A''], 100, 303)"
    by code_simp
  from budget_exhausted_fails [OF fits order earlier loop]
  have "generate_word_search (\<lambda>n. 0) 0 1 [''A'', ''B''] = Inr (FAILURE, 303)"
    by simp
  with order loop show ?thesis by blast
qed

section \<open>What a successful generation returns\<close>

lemma DIRECTIONS_nonzero: "d \<in> set DIRECTIONS \<Longrightarrow> d \<noteq> (0, 0)"
  by (auto simp: DIRECTIONS_def)

lemma get_word_path_nth:
  "i < length w \<Longrightarrow> get_word_path w sr sc d ! i = (sr + int i * fst d, sc + int i * snd d)"
  by (simp add: get_word_path_def)

lemma can_place_word_accepts:
  assumes "can_place_word g word sr sc d = Inr True" "i < length word"
  shows "cell_accepts g (sr + int i * fst d) (sc + int i * snd d) (word ! i)"
  using assms can_place_loop_True_iff [of g sr sc d 0 word]
  by (simp add: can_place_word_def)

lemma new_placement_ok:
  assumes cp: "can_place_word g word sr sc d = Inr True"
    and pl: "place_word g word sr sc d = Inr g'"
    and d: "d \<in> set DIRECTIONS"
  shows "placement_ok g' \<lparr>pw_word = word, pw_path = get_word_path word sr sc d, pw_direction = d\<rparr>"
proof -
  from place_word_effect [OF cp] pl have
    len: "map length g' = map length g" and
    get: "\<And>r c. 0 \<le> r \<Longrightarrow> 0 \<le> c \<Longrightarrow>
            grid_get g' r c =
              (case map_of (rev (path_entries sr sc d (enumerate 0 word))) (r, c) of
                 None \<Rightarrow> grid_get g r c
               | Some l \<Rightarrow> Inr l)"
    by auto
  have lg: "length g' = length g"
    using len by (metis length_map)
  have "0 \<le> sr + int i * fst d \<and> sr + int i * fst d < int (length g') \<and>
        0 \<le> sc + int i * snd d \<and> sc + int i * snd d < int (length g') \<and>
        grid_get g' (sr + int i * fst d) (sc + int i * snd d) = Inr (word ! i)"
    if i: "i < length word" for i
  proof -
    from can_place_word_accepts [OF cp i]
    have b: "0 \<le> sr + int i * fst d" "sr + int i * fst d < int (length g)"
      "0 \<le> sc + int i * snd d" "sc + int i * snd d < int (length g)"
      by (simp_all add: cell_accepts_def)
    have "grid_get g' (sr + int i * fst d) (sc + int i * snd d) = Inr (word ! i)"
      using get [OF b(1) b(3)] map_of_entries_on_path [OF DIRECTIONS_nonzero [OF d] i]
      by simp
    with b lg show ?thesis by simp
  qed
  then show ?thesis
    by (simp add: placement_ok_def get_word_path_nth) (simp add: get_word_path_def)
qed

lemma old_placement_ok:
  assumes cp: "can_place_word g word sr sc d = Inr True"
    and pl: "place_word g word sr sc d = Inr g'"
    and ok: "placement_ok g p"
  shows "placement_ok g' p"
proof -
  from place_word_effect [OF cp] pl have
    len: "map length g' = map length g" and
    get: "\<And>r c. 0 \<le> r \<Longrightarrow> 0 \<le> c \<Longrightarrow>
            grid_get g' r c =
              (case map_of (rev (path_entries sr sc d (enumerate 0 word))) (r, c) of
                 None \<Rightarrow> grid_get g r c
               | Some l \<Rightarrow> Inr l)"
    by auto
  have lg: "length g' = length g"
    using len by (metis length_map)
  have keep: "grid_get g' r c = Inr l"
    if "0 \<le> r" "0 \<le> c" "grid_get g r c = Inr l" "l \<noteq> BLANK" for r c l
  proof (cases "map_of (rev (path_entries sr sc d (enumerate 0 word))) (r, c)")
    case None
    with get [OF that(1,2)] that(3) show ?thesis by simp
  next
    case (Some l')
    then have "((r, c), l') \<in> set (path_entries sr sc d (enumerate 0 word))"
      using map_of_SomeD by fastforce
    then obtain j where j: "j < length word" and
      rc: "r = sr + int j * fst d" "c = sc + int j * snd d" and l': "l' = word ! j"
      by (auto simp: path_entries_def in_set_enumerate_eq)
    from can_place_word_accepts [OF cp j] that(3,4) have "l = word ! j"
      by (auto simp: cell_accepts_def rc)
    with get [OF that(1,2)] Some l' show ?thesis by simp
  qed
  show ?thesis
    using ok keep unfolding placement_ok_def lg by blast
qed

lemma place_words_invariant:
  assumes "place_words src gs ws g pl k = Inr (Some (g', pl'), k')"
    and "\<forall>p \<in> set pl. placement_ok g p"
  shows "map length g' = map length g \<and> (\<forall>p \<in> set pl'. placement_ok g' p) \<and>
         map pw_word pl' = map pw_word pl @ ws"
  using assms
proof (induction ws arbitrary: g pl k)
  case Nil
  then show ?case by simp
next
  case (Cons w ws)
  from Cons.prems(1) obtain p g1 a k1 where
    loop: "attempt_loop src gs w g 0 k = Inr (Some p, g1, a, k1)" and
    rest: "place_words src gs ws g1 (pl @ [p]) k1 = Inr (Some (g', pl'), k')"
    by (auto split: sum.splits option.splits prod.splits)
  from attempt_loop_result [OF loop] obtain sr sc d where
    d: "d \<in> set DIRECTIONS" and
    cp: "can_place_word g w sr sc d = Inr True" and
    pw: "place_word g w sr sc d = Inr g1" and
    p: "p = \<lparr>pw_word = w, pw_path = get_word_path w sr sc d, pw_direction = d\<rparr>"
    by auto
  have len1: "map length g1 = map length g"
    using place_word_effect [OF cp] pw by auto
  have "\<forall>q \<in> set (pl @ [p]). placement_ok g1 q"
    using Cons.prems(2) old_placement_ok [OF cp pw] new_placement_ok [OF cp pw d] p
    by auto
  from Cons.IH [OF rest this] len1 p show ?case
    by simp
qed

lemma alphabet_not_blank: "ALPHABET ! (n mod length ALPHABET) \<noteq> BLANK"
proof -
  have "\<forall>c \<in> set ALPHABET. c \<noteq> BLANK"
    by (simp add: ALPHABET_def BLANK_def)
  moreover have "n mod length ALPHABET < length ALPHABET"
    by (simp add: ALPHABET_def)
  ultimately show ?thesis
    using nth_mem by blast
qed

lemma fill_row_filled:
  "fill_row src xs k = (ys, k') \<Longrightarrow> list_all2 filled xs ys"
proof (induction xs arbitrary: k ys k')
  case Nil
  then show ?case by simp
next
  case (Cons x xs)
  then show ?case
    using alphabet_not_blank
    by (auto simp: filled_def split: if_splits prod.splits)
qed

lemma fill_empty_cells_filled:
  "fill_empty_cells src g k = (g', k') \<Longrightarrow> list_all2 (list_all2 filled) g g'"
proof (induction g arbitrary: k g' k')
  case Nil
  then show ?case by simp
next
  case (Cons row rows)
  then show ?case
    using fill_row_filled
    by (auto split: prod.splits)
qed

lemma filled_grid_get:
  assumes all: "list_all2 (list_all2 filled) g g'"
    and rc: "0 \<le> r" "0 \<le> c"
    and get: "grid_get g r c = Inr l" and l: "l \<noteq> BLANK"
  shows "grid_get g' r c = Inr l"
proof -
  from get rc have r: "nat r < length g" and c: "nat c < length (g ! nat r)"
    and v: "g ! nat r ! nat c = l"
    by (auto simp: grid_get_nonneg split: if_splits)
  from all r have row: "list_all2 filled (g ! nat r) (g' ! nat r)" and lg: "length g' = length g"
    by (simp_all add: list_all2_conv_all_nth)
  from row c have "filled (g ! nat r ! nat c) (g' ! nat r ! nat c)"
    and lr: "length (g' ! nat r) = length (g ! nat r)"
    by (simp_all add: list_all2_conv_all_nth)
  with v l have "g' ! nat r ! nat c = l"
    by (simp add: filled_def)
  with r c lg lr rc show ?thesis
    by (simp add: grid_get_nonneg)
qed

lemma filled_no_blank:
  assumes all: "list_all2 (list_all2 filled) g g'" and row: "row \<in> set g'"
  shows "BLANK \<notin> set row"
proof
  assume "BLANK \<in> set row"
  then obtain c where c: "c < length row" "row ! c = BLANK"
    by (auto simp: in_set_conv_nth)
  from row obtain r where r: "r < length g'" "g' ! r = row"
    by (auto simp: in_set_conv_nth)
  from all r have "list_all2 filled (g ! r) row"
    by (auto simp: list_all2_conv_all_nth)
  with c have "filled (g ! r ! c) BLANK"
    by (auto simp: list_all2_conv_all_nth)
  then show False by (simp add: filled_def)
qed

lemma mset_sorted_by_len_desc: "mset (sorted_by_len_desc ws) = mset ws"
  by (simp add: sorted_by_len_desc_def)

text \<open>The facts about a successful run, for any list of words.\<close>

lemma generate_success:
  assumes "generate_word_search src k grid_size words = Inr (SUCCESS g ps, k')"
  shows "map pw_word ps = sorted_by_len_desc words \<and>
         (\<forall>row \<in> set g. BLANK \<notin> set row) \<and>
         (\<forall>p \<in> set ps. length (pw_path p) = length (pw_word p) \<and>
            (\<forall>i<length (pw_word p).
               0 \<le> fst (pw_path p ! i) \<and> fst (pw_path p ! i) < grid_size \<and>
               0 \<le> snd (pw_path p ! i) \<and> snd (pw_path p ! i) < grid_size \<and>
               (pw_word p ! i \<noteq> BLANK \<longrightarrow>
                  grid_get g (fst (pw_path p ! i)) (snd (pw_path p ! i)) = Inr (pw_word p ! i))))"
proof -
  let ?fit = "\<lambda>w. int (length w) \<le> grid_size"
  let ?run = "place_words src grid_size (sorted_by_len_desc words) (blank_grid grid_size) [] k"
  have "generate_word_search src k grid_size words = Inr (FAILURE, k)"
    if "length (filter ?fit words) < length words"
    using that by (simp add: generate_word_search_def)
  with assms have nl: "\<not> length (filter ?fit words) < length words"
    by auto
  have "?fit w" if "w \<in> set words" for w
  proof (rule ccontr)
    assume "\<not> ?fit w"
    with that have "length (filter ?fit words) < length words"
      by (rule length_filter_less)
    with nl show False by simp
  qed
  then have "\<forall>w \<in> set words. ?fit w"
    by blast
  then have valid: "filter ?fit words = words"
    by (rule filter_fits_all)
  have unfold: "generate_word_search src k grid_size words =
      (case ?run of
         Inl e \<Rightarrow> Inl e
       | Inr (None, k') \<Rightarrow> Inr (FAILURE, k')
       | Inr (Some (g, placed_words), k') \<Rightarrow>
           (let (g', k'') = fill_empty_cells src g k'
            in Inr (SUCCESS g' placed_words, k'')))"
    by (simp add: generate_word_search_def valid)
  obtain g1 k1 where
    run: "?run = Inr (Some (g1, ps), k1)" and
    fill: "fill_empty_cells src g1 k1 = (g, k')"
  proof (cases ?run)
    case (Inl e)
    with assms unfold show ?thesis by simp
  next
    case (Inr res)
    obtain o1 k1 where res: "res = (o1, k1)" by (cases res)
    show ?thesis
    proof (cases o1)
      case None
      with assms unfold Inr res show ?thesis by simp
    next
      case (Some gp)
      obtain g1 ps1 where gp: "gp = (g1, ps1)" by (cases gp)
      obtain g2 k2 where f: "fill_empty_cells src g1 k1 = (g2, k2)"
        by (cases "fill_empty_cells src g1 k1")
      from assms unfold Inr res Some gp f have "g2 = g" "ps1 = ps" "k2 = k'"
        by simp_all
      with Inr res Some gp f that show ?thesis by simp
    qed
  qed
  from place_words_invariant [OF run] have
    len: "map length g1 = map length (blank_grid grid_size)" and
    ok: "\<forall>p \<in> set ps. placement_ok g1 p" and
    ws: "map pw_word ps = sorted_by_len_desc words"
    by simp_all
  have lg1: "length g1 = nat grid_size"
    using len by (metis blank_grid_def length_map length_replicate)
  have all: "list_all2 (list_all2 filled) g1 g"
    using fill by (rule fill_empty_cells_filled)
  have "length (pw_path p) = length (pw_word p) \<and>
            (\<forall>i<length (pw_word p).
               0 \<le> fst (pw_path p ! i) \<and> fst (pw_path p ! i) < grid_size \<and>
               0 \<le> snd (pw_path p ! i) \<and> snd (pw_path p ! i) < grid_size \<and>
               (pw_word p ! i \<noteq> BLANK \<longrightarrow>
                  grid_get g (fst (pw_path p ! i)) (snd (pw_path p ! i)) = Inr (pw_word p ! i)))"
    if "p \<in> set ps" for p
  proof -
    from ok that have pok: "placement_ok g1 p" by blast
    have "0 \<le> fst (pw_path p ! i) \<and> fst (pw_path p ! i) < grid_size \<and>
               0 \<le> snd (pw_path p ! i) \<and> snd (pw_path p ! i) < grid_size \<and>
               (pw_word p ! i \<noteq> BLANK \<longrightarrow>
                  grid_get g (fst (pw_path p ! i)) (snd (pw_path p ! i)) = Inr (pw_word p ! i))"
      if i: "i < length (pw_word p)" for i
    proof -
      from pok i have b: "0 \<le> fst (pw_path p ! i)" "fst (pw_path p ! i) < int (nat grid_size)"
        "0 \<le> snd (pw_path p ! i)" "snd (pw_path p ! i) < int (nat grid_size)"
        and l: "pw_word p ! i \<noteq> BLANK \<Longrightarrow>
          grid_get g1 (fst (pw_path p ! i)) (snd (pw_path p ! i)) = Inr (pw_word p ! i)"
        by (simp_all add: placement_ok_def lg1)
      have "grid_get g (fst (pw_path p ! i)) (snd (pw_path p ! i)) = Inr (pw_word p ! i)"
        if "pw_word p ! i \<noteq> BLANK"
        using filled_grid_get [OF all b(1) b(3) l [OF that] that] .
      with b show ?thesis by linarith
    qed
    with pok show ?thesis by (simp add: placement_ok_def)
  qed
  moreover have "\<forall>row \<in> set g. BLANK \<notin> set row"
    using filled_no_blank [OF all] by blast
  ultimately show ?thesis
    using ws by blast
qed

text \<open>
  C1. The generator is called with a validated word list: pairwise distinct words of
  letters, none of them the blank sentinel. For every grid size and every such list, if
  \<open>generate_word_search\<close> succeeds then every requested word appears in the returned
  placements exactly once (the placements carry the requested words and no others),
  every placement's path lies within \<open>[0, size)\<^sup>2\<close>, the letter at \<open>path[i]\<close> of each
  placement equals \<open>word[i]\<close>, and no cell of the returned grid holds the blank sentinel.
\<close>

theorem generate_success_sound:
  assumes run: "generate_word_search src k grid_size words = Inr (SUCCESS g ps, k')"
    and dist: "distinct words"
    and letters: "\<forall>w \<in> set words. BLANK \<notin> set w"
  shows "mset (map pw_word ps) = mset words \<and>
         (\<forall>w \<in> set words. count_list (map pw_word ps) w = 1) \<and>
         (\<forall>p \<in> set ps. length (pw_path p) = length (pw_word p) \<and>
            (\<forall>i<length (pw_word p).
               0 \<le> fst (pw_path p ! i) \<and> fst (pw_path p ! i) < grid_size \<and>
               0 \<le> snd (pw_path p ! i) \<and> snd (pw_path p ! i) < grid_size \<and>
               grid_get g (fst (pw_path p ! i)) (snd (pw_path p ! i)) = Inr (pw_word p ! i))) \<and>
         (\<forall>row \<in> set g. BLANK \<notin> set row)"
proof -
  from generate_success [OF run] have
    ws: "map pw_word ps = sorted_by_len_desc words" and
    full: "\<forall>row \<in> set g. BLANK \<notin> set row" and
    ok: "\<And>p i. p \<in> set ps \<Longrightarrow> i < length (pw_word p) \<Longrightarrow>
           0 \<le> fst (pw_path p ! i) \<and> fst (pw_path p ! i) < grid_size \<and>
           0 \<le> snd (pw_path p ! i) \<and> snd (pw_path p ! i) < grid_size \<and>
           (pw_word p ! i \<noteq> BLANK \<longrightarrow>
              grid_get g (fst (pw_path p ! i)) (snd (pw_path p ! i)) = Inr (pw_word p ! i))" and
    len: "\<And>p. p \<in> set ps \<Longrightarrow> length (pw_path p) = length (pw_word p)"
    by blast+
  have ms: "mset (map pw_word ps) = mset words"
    by (simp add: ws mset_sorted_by_len_desc)
  have once: "count_list (map pw_word ps) w = 1" if "w \<in> set words" for w
  proof -
    have c: "count (mset words) w = 1"
      using dist that by (simp add: distinct_count_atmost_1)
    have "count_list (map pw_word ps) w = count (mset (map pw_word ps)) w"
      by (simp only: count_mset)
    also have "\<dots> = count (mset words) w"
      by (simp only: ms)
    finally show ?thesis
      using c by simp
  qed
  have cells: "0 \<le> fst (pw_path p ! i) \<and> fst (pw_path p ! i) < grid_size \<and>
               0 \<le> snd (pw_path p ! i) \<and> snd (pw_path p ! i) < grid_size \<and>
               grid_get g (fst (pw_path p ! i)) (snd (pw_path p ! i)) = Inr (pw_word p ! i)"
    if p: "p \<in> set ps" and i: "i < length (pw_word p)" for p i
  proof -
    have "pw_word p \<in> set (map pw_word ps)"
      using p by simp
    then have "pw_word p \<in> set words"
      using ms by (metis set_mset_mset)
    with letters have "BLANK \<notin> set (pw_word p)" by blast
    with i have "pw_word p ! i \<noteq> BLANK"
      using nth_mem by metis
    with ok [OF p i] show ?thesis by blast
  qed
  from ms once cells len full show ?thesis
    by blast
qed

theorem generate_success_sound_witness:
  "generate_word_search (replay [0, 0, 0, 4, 0, 0, 5, 0, 0, 0, 3, 1]) 0 10
       [''GHOST'', ''WITCH'', ''BAT'', ''ZOMBIE''] =
     Inr (SUCCESS
            [''ZOMBIEAAAA'', ''AAAAAAAAAA'', ''AAATAAAAAA'', ''AAAAAAAAAA'',
             ''GHOSTAAAAA'', ''WITCHAAAAA'', ''AAAAAAAAAA'', ''AAAAAAAAAA'',
             ''AAAAAAAAAA'', ''AAAAAAAAAA'']
            [\<lparr>pw_word = ''ZOMBIE'',
                pw_path = [(0, 0), (0, 1), (0, 2), (0, 3), (0, 4), (0, 5)],
                pw_direction = (0, 1)\<rparr>,
             \<lparr>pw_word = ''GHOST'', pw_path = [(4, 0), (4, 1), (4, 2), (4, 3), (4, 4)],
                pw_direction = (0, 1)\<rparr>,
             \<lparr>pw_word = ''WITCH'', pw_path = [(5, 0), (5, 1), (5, 2), (5, 3), (5, 4)],
                pw_direction = (0, 1)\<rparr>,
             \<lparr>pw_word = ''BAT'', pw_path = [(0, 3), (1, 3), (2, 3)],
                pw_direction = (1, 0)\<rparr>], 94) \<and>
   distinct [''GHOST'', ''WITCH'', ''BAT'', ''ZOMBIE''] \<and>
   BLANK \<notin> set ''GHOST'' \<and> BLANK \<notin> set ''WITCH'' \<and>
   BLANK \<notin> set ''BAT'' \<and> BLANK \<notin> set ''ZOMBIE'' \<and>
   mset (map pw_word
            [\<lparr>pw_word = ''ZOMBIE'',
                pw_path = [(0, 0), (0, 1), (0, 2), (0, 3), (0, 4), (0, 5)],
                pw_direction = (0, 1)\<rparr>,
             \<lparr>pw_word = ''GHOST'', pw_path = [(4, 0), (4, 1), (4, 2), (4, 3), (4, 4)],
                pw_direction = (0, 1)\<rparr>,
             \<lparr>pw_word = ''WITCH'', pw_path = [(5, 0), (5, 1), (5, 2), (5, 3), (5, 4)],
                pw_direction = (0, 1)\<rparr>,
             \<lparr>pw_word = ''BAT'', pw_path = [(0, 3), (1, 3), (2, 3)],
                pw_direction = (1, 0)\<rparr>])
     = mset [''GHOST'', ''WITCH'', ''BAT'', ''ZOMBIE'']"
proof -
  let ?ws = "[''GHOST'', ''WITCH'', ''BAT'', ''ZOMBIE'']"
  let ?g = "[''ZOMBIEAAAA'', ''AAAAAAAAAA'', ''AAATAAAAAA'', ''AAAAAAAAAA'',
             ''GHOSTAAAAA'', ''WITCHAAAAA'', ''AAAAAAAAAA'', ''AAAAAAAAAA'',
             ''AAAAAAAAAA'', ''AAAAAAAAAA'']"
  let ?ps = "[\<lparr>pw_word = ''ZOMBIE'',
                pw_path = [(0, 0), (0, 1), (0, 2), (0, 3), (0, 4), (0, 5)],
                pw_direction = (0, 1)\<rparr>,
             \<lparr>pw_word = ''GHOST'', pw_path = [(4, 0), (4, 1), (4, 2), (4, 3), (4, 4)],
                pw_direction = (0, 1)\<rparr>,
             \<lparr>pw_word = ''WITCH'', pw_path = [(5, 0), (5, 1), (5, 2), (5, 3), (5, 4)],
                pw_direction = (0, 1)\<rparr>,
             \<lparr>pw_word = ''BAT'', pw_path = [(0, 3), (1, 3), (2, 3)],
                pw_direction = (1, 0)\<rparr>]"
  have run: "generate_word_search (replay [0, 0, 0, 4, 0, 0, 5, 0, 0, 0, 3, 1]) 0 10 ?ws =
     Inr (SUCCESS ?g ?ps, 94)"
    by code_simp
  have dist: "distinct ?ws" by simp
  have letters: "\<forall>w \<in> set ?ws. BLANK \<notin> set w"
    by (simp add: BLANK_def)
  from generate_success_sound [OF run dist letters] have
    ms: "mset (map pw_word ?ps) = mset ?ws"
    by blast
  have "BLANK \<notin> set ''GHOST''" "BLANK \<notin> set ''WITCH''"
    "BLANK \<notin> set ''BAT''" "BLANK \<notin> set ''ZOMBIE''"
    using letters by simp_all
  then show ?thesis
    using run dist ms by blast
qed

section \<open>Dragging follows straight lines\<close>

lemma div_abs_sgn:
  fixes x :: int
  assumes "x \<noteq> 0"
  shows "x div \<bar>x\<bar> = sgn x"
proof (cases "0 < x")
  case True
  then show ?thesis by simp
next
  case False
  with assms have neg: "x < 0" by simp
  then have "x div \<bar>x\<bar> = x div (- x)" by simp
  also have "\<dots> = - (x div x)"
    by (simp add: div_minus_right dvd_neg_div)
  also have "\<dots> = sgn x"
    using neg by simp
  finally show ?thesis .
qed

lemma upto_0_3: "[0..3] = [0, 1, 2, 3::int]"
  by code_simp

lemma get_cell_from_pos_bounds:
  assumes "get_cell_from_pos w pos = Some cell"
  shows "0 \<le> fst cell \<and> fst cell < pg_grid_size w \<and> 0 \<le> snd cell \<and> snd cell < pg_grid_size w"
  using assms
  by (auto simp: get_cell_from_pos_def Let_def split: prod.splits if_splits)

lemma get_path_between_line:
  assumes valid: "is_valid_drag_path start end_cell"
    and inside: "0 \<le> fst end_cell \<and> fst end_cell < gs \<and> 0 \<le> snd end_cell \<and> snd end_cell < gs"
  shows "get_path_between gs start end_cell = line_path gs start end_cell"
proof -
  obtain r1 c1 r2 c2 where s: "start = (r1, c1)" and e: "end_cell = (r2, c2)"
    by (cases start, cases end_cell)
  define dr dc where "dr = r2 - r1" and "dc = c2 - c1"
  define steps where "steps = max \<bar>dr\<bar> \<bar>dc\<bar>"
  have v: "dr = 0 \<or> dc = 0 \<or> \<bar>dr\<bar> = \<bar>dc\<bar>"
    using valid by (simp add: is_valid_drag_path_def s e dr_def dc_def)
  show ?thesis
  proof (cases "steps = 0")
    case True
    then have "dr = 0" "dc = 0"
      by (simp_all add: steps_def max_def split: if_splits)
    then have same: "r2 = r1" "c2 = c1"
      by (simp_all add: dr_def dc_def)
    with inside show ?thesis
      by (simp add: get_path_between_def line_path_def s e)
  next
    case False
    have rstep: "(if dr \<noteq> 0 then dr div steps else 0) = sgn dr"
    proof (cases "dr = 0")
      case True
      then show ?thesis by simp
    next
      case nz: False
      with v have "steps = \<bar>dr\<bar>"
        by (auto simp: steps_def)
      with nz show ?thesis
        by (simp add: div_abs_sgn)
    qed
    have cstep: "(if dc \<noteq> 0 then dc div steps else 0) = sgn dc"
    proof (cases "dc = 0")
      case True
      then show ?thesis by simp
    next
      case nz: False
      with v have "steps = \<bar>dc\<bar>"
        by (auto simp: steps_def)
      with nz show ?thesis
        by (simp add: div_abs_sgn)
    qed
    have "get_path_between gs start end_cell =
        filter (\<lambda>(r, c). 0 \<le> r \<and> r < gs \<and> 0 \<le> c \<and> c < gs)
          (map (\<lambda>i. (r1 + (if dr \<noteq> 0 then dr div steps else 0) * i,
                       c1 + (if dc \<noteq> 0 then dc div steps else 0) * i)) [0..steps])"
      using False
      unfolding steps_def dr_def dc_def
      by (simp add: get_path_between_def s e Let_def split del: if_split)
    then have "get_path_between gs start end_cell =
        filter (\<lambda>(r, c). 0 \<le> r \<and> r < gs \<and> 0 \<le> c \<and> c < gs)
          (map (\<lambda>i. (r1 + sgn dr * i, c1 + sgn dc * i)) [0..steps])"
      by (simp only: rstep cstep)
    then show ?thesis
      by (simp add: line_path_def s e dr_def dc_def steps_def case_prod_unfold)
  qed
qed

lemma mouseMoveEvent_dragging:
  assumes "is_dragging d" "grid_truthy (pg_grid d)" "drag_start_cell d = Some start"
    and "get_cell_from_pos d q = Some cell" "drag_current_cell d \<noteq> Some cell"
  shows "mouseMoveEvent d q =
           Inr (if is_valid_drag_path start cell
                then d\<lparr>drag_current_cell := Some cell,
                       current_temp_path := line_path (pg_grid_size d) start cell\<rparr>
                else d)"
  using assms get_path_between_line [OF _ get_cell_from_pos_bounds [OF assms(4)], of start]
  by (auto simp: mouseMoveEvent_def)

text \<open>
  C6. During a drag that started at \<open>(2,2)\<close> on a grid of at least 6 by 6 cells, moving
  to \<open>(2,5)\<close> makes the path \<open>[(2,2),(2,3),(2,4),(2,5)]\<close>, moving to \<open>(5,2)\<close> makes it
  \<open>[(2,2),(3,2),(4,2),(5,2)]\<close>, and moving to the non-collinear cell \<open>(5,4)\<close> changes
  nothing and raises nothing. In general a move to a new cell of the grid either leaves
  the widget as it is (no straight line) or sets the path to the inclusive line from the
  start cell, stepping by the sign of each delta, \<open>max(|\<Delta>row|, |\<Delta>col|)\<close> steps long, with
  the cells outside the grid dropped.
\<close>

theorem drag_extends_along_lines:
  assumes drag: "is_dragging d" and grid: "grid_truthy (pg_grid d)"
    and start: "drag_start_cell d = Some (2, 2)"
    and size: "6 \<le> pg_grid_size d"
  shows "(get_cell_from_pos d p = Some (2, 5) \<and> drag_current_cell d \<noteq> Some (2, 5) \<longrightarrow>
            mouseMoveEvent d p =
              Inr (d\<lparr>drag_current_cell := Some (2, 5),
                     current_temp_path := [(2, 2), (2, 3), (2, 4), (2, 5)]\<rparr>)) \<and>
         (get_cell_from_pos d p = Some (5, 2) \<and> drag_current_cell d \<noteq> Some (5, 2) \<longrightarrow>
            mouseMoveEvent d p =
              Inr (d\<lparr>drag_current_cell := Some (5, 2),
                     current_temp_path := [(2, 2), (3, 2), (4, 2), (5, 2)]\<rparr>)) \<and>
         (get_cell_from_pos d p = Some (5, 4) \<longrightarrow> mouseMoveEvent d p = Inr d) \<and>
         (\<forall>d' first cell q.
            is_dragging d' \<and> grid_truthy (pg_grid d') \<and> drag_start_cell d' = Some first \<and>
            get_cell_from_pos d' q = Some cell \<and> drag_current_cell d' \<noteq> Some cell \<longrightarrow>
            mouseMoveEvent d' q =
              Inr (if is_valid_drag_path first cell
                   then d'\<lparr>drag_current_cell := Some cell,
                           current_temp_path := line_path (pg_grid_size d') first cell\<rparr>
                   else d'))"
proof (intro conjI impI allI)
  have row: "line_path (pg_grid_size d) (2, 2) (2, 5) = [(2, 2), (2, 3), (2, 4), (2, 5)]"
    using size by (simp add: line_path_def upto_0_3)
  have col: "line_path (pg_grid_size d) (2, 2) (5, 2) = [(2, 2), (3, 2), (4, 2), (5, 2)]"
    using size by (simp add: line_path_def upto_0_3)
  {
    assume "get_cell_from_pos d p = Some (2, 5) \<and> drag_current_cell d \<noteq> Some (2, 5)"
    then show "mouseMoveEvent d p =
              Inr (d\<lparr>drag_current_cell := Some (2, 5),
                     current_temp_path := [(2, 2), (2, 3), (2, 4), (2, 5)]\<rparr>)"
      using mouseMoveEvent_dragging [OF drag grid start, of p "(2, 5)"] row
      by (simp add: is_valid_drag_path_def)
  }
  {
    assume "get_cell_from_pos d p = Some (5, 2) \<and> drag_current_cell d \<noteq> Some (5, 2)"
    then show "mouseMoveEvent d p =
              Inr (d\<lparr>drag_current_cell := Some (5, 2),
                     current_temp_path := [(2, 2), (3, 2), (4, 2), (5, 2)]\<rparr>)"
      using mouseMoveEvent_dragging [OF drag grid start, of p "(5, 2)"] col
      by (simp add: is_valid_drag_path_def)
  }
  {
    assume "get_cell_from_pos d p = Some (5, 4)"
    then show "mouseMoveEvent d p = Inr d"
      using drag grid start
      by (simp add: mouseMoveEvent_def is_valid_drag_path_def)
  }
  {
    fix d' first cell q
    assume "is_dragging d' \<and> grid_truthy (pg_grid d') \<and> drag_start_cell d' = Some first \<and>
            get_cell_from_pos d' q = Some cell \<and> drag_current_cell d' \<noteq> Some cell"
    then show "mouseMoveEvent d' q =
              Inr (if is_valid_drag_path first cell
                   then d'\<lparr>drag_current_cell := Some cell,
                           current_temp_path := line_path (pg_grid_size d') first cell\<rparr>
                   else d')"
      using mouseMoveEvent_dragging [of d' first q cell] by blast
  }
qed

theorem drag_extends_along_lines_witness:
  "mousePressEvent
     \<lparr>pg_grid = Some (blank_grid 6), pg_grid_size = 6, is_dragging = False,
      drag_start_cell = None, drag_current_cell = None, current_temp_path = []\<rparr>
     LeftButton (75, 75) =
     \<lparr>pg_grid = Some (blank_grid 6), pg_grid_size = 6, is_dragging = True,
      drag_start_cell = Some (2, 2), drag_current_cell = Some (2, 2),
      current_temp_path = [(2, 2)]\<rparr> \<and>
   mouseMoveEvent
     \<lparr>pg_grid = Some (blank_grid 6), pg_grid_size = 6, is_dragging = True,
      drag_start_cell = Some (2, 2), drag_current_cell = Some (2, 2),
      current_temp_path = [(2, 2)]\<rparr> (165, 75) =
     Inr \<lparr>pg_grid = Some (blank_grid 6), pg_grid_size = 6, is_dragging = True,
          drag_start_cell = Some (2, 2), drag_current_cell = Some (2, 5),
          current_temp_path = [(2, 2), (2, 3), (2, 4), (2, 5)]\<rparr> \<and>
   mouseMoveEvent
     \<lparr>pg_grid = Some (blank_grid 6), pg_grid_size = 6, is_dragging = True,
      drag_start_cell = Some (2, 2), drag_current_cell = Some (2, 5),
      current_temp_path = [(2, 2), (2, 3), (2, 4), (2, 5)]\<rparr> (135, 165) =
     Inr \<lparr>pg_grid = Some (blank_grid 6), pg_grid_size = 6, is_dragging = True,
          drag_start_cell = Some (2, 2), drag_current_cell = Some (2, 5),
          current_temp_path = [(2, 2), (2, 3), (2, 4), (2, 5)]\<rparr>"
proof -
  let ?w0 = "\<lparr>pg_grid = Some (blank_grid 6), pg_grid_size = 6, is_dragging = False,
      drag_start_cell = None, drag_current_cell = None, current_temp_path = []\<rparr>"
  let ?d1 = "\<lparr>pg_grid = Some (blank_grid 6), pg_grid_size = 6, is_dragging = True,
      drag_start_cell = Some (2, 2), drag_current_cell = Some (2, 2),
      current_temp_path = [(2, 2)]\<rparr>"
  let ?d2 = "\<lparr>pg_grid = Some (blank_grid 6), pg_grid_size = 6, is_dragging = True,
      drag_start_cell = Some (2, 2), drag_current_cell = Some (2, 5),
      current_temp_path = [(2, 2), (2, 3), (2, 4), (2, 5)]\<rparr>"
  have truthy: "grid_truthy (Some (blank_grid 6))"
    by code_simp
  have press: "mousePressEvent ?w0 LeftButton (75, 75) = ?d1"
    using truthy by (simp add: mousePressEvent_def get_cell_from_pos_def CELL_SIZE_def)
  have c1: "get_cell_from_pos ?d1 (165, 75) = Some (2, 5)"
    by (simp add: get_cell_from_pos_def CELL_SIZE_def)
  have c2: "get_cell_from_pos ?d2 (135, 165) = Some (5, 4)"
    by (simp add: get_cell_from_pos_def CELL_SIZE_def)
  have "mouseMoveEvent ?d1 (165, 75) = Inr ?d2"
    using drag_extends_along_lines [of ?d1 "(165, 75)"] truthy c1 by simp
  moreover have "mouseMoveEvent ?d2 (135, 165) = Inr ?d2"
    using drag_extends_along_lines [of ?d2 "(135, 165)"] truthy c2 by simp
  ultimately show ?thesis
    using press by blast
qed

section \<open>Matching a finished selection\<close>

text \<open>
  The letters read along a path: one read of the grid per cell, in the order of the path.
\<close>

lemma path_letters_iff:
  "path_letters g path = Inr word \<longleftrightarrow>
     length word = length path \<and>
     (\<forall>i<length path. grid_get g (fst (path ! i)) (snd (path ! i)) = Inr (word ! i))"
proof (induction path arbitrary: word)
  case Nil
  show ?case by auto
next
  case (Cons x path)
  obtain r c where x: "x = (r, c)" by (cases x)
  show ?case
  proof (cases word)
    case Nil
    then show ?thesis
      by (auto simp: x split: sum.splits)
  next
    case (Cons v vs)
    have "path_letters g (x # path) = Inr (v # vs) \<longleftrightarrow>
        grid_get g r c = Inr v \<and> path_letters g path = Inr vs"
      by (auto simp: x split: sum.splits)
    also have "\<dots> \<longleftrightarrow> grid_get g r c = Inr v \<and> length vs = length path \<and>
        (\<forall>i<length path. grid_get g (fst (path ! i)) (snd (path ! i)) = Inr (vs ! i))"
      by (simp only: Cons.IH)
    also have "\<dots> \<longleftrightarrow> length (v # vs) = length (x # path) \<and>
        (\<forall>i<length (x # path).
           grid_get g (fst ((x # path) ! i)) (snd ((x # path) ! i)) = Inr ((v # vs) ! i))"
      unfolding all_less_length_Cons by (auto simp: x)
    finally show ?thesis
      by (simp only: Cons)
  qed
qed

text \<open>
  C7. When a selection ends, the candidate is the string whose \<open>i\<close>-th letter is the
  letter the grid holds at the \<open>i\<close>-th cell of the path. If the candidate is a target word
  not yet found, it is added to the found words, the set of the path's cells is added to
  the found paths and the word leaves the unfound words; otherwise the same happens for
  the reversed candidate if that is a target word not yet found; otherwise nothing
  changes. On a grid whose first row starts with \<open>CATDOG\<close> the path \<open>(0,0)\<close> to \<open>(0,2)\<close>
  marks \<open>CAT\<close> found, and marks \<open>TAC\<close> found when the word set holds \<open>TAC\<close> and not
  \<open>CAT\<close>.
\<close>

theorem selection_marks_word_found:
  assumes grid: "app_grid a = Some g"
    and len: "length candidate = length path"
    and read: "\<forall>i<length path.
                 grid_get g (fst (path ! i)) (snd (path ! i)) = Inr (candidate ! i)"
  shows "(candidate \<in> app_words a \<and> candidate \<notin> app_found_words a \<longrightarrow>
            on_word_selected a path =
              Inr (a\<lparr>app_found_words := insert candidate (app_found_words a),
                     app_found_paths := insert (set path) (app_found_paths a),
                     app_unfound_words := app_unfound_words a - {candidate}\<rparr>)) \<and>
         (\<not> (candidate \<in> app_words a \<and> candidate \<notin> app_found_words a) \<and>
          rev candidate \<in> app_words a \<and> rev candidate \<notin> app_found_words a \<longrightarrow>
            on_word_selected a path =
              Inr (a\<lparr>app_found_words := insert (rev candidate) (app_found_words a),
                     app_found_paths := insert (set path) (app_found_paths a),
                     app_unfound_words := app_unfound_words a - {rev candidate}\<rparr>)) \<and>
         (\<not> (candidate \<in> app_words a \<and> candidate \<notin> app_found_words a) \<and>
          \<not> (rev candidate \<in> app_words a \<and> rev candidate \<notin> app_found_words a) \<longrightarrow>
            on_word_selected a path = Inr a) \<and>
         (\<forall>more rest.
            g = (''CATDOG'' @ more) # rest \<and> path = [(0, 0), (0, 1), (0, 2)] \<longrightarrow>
            candidate = ''CAT'' \<and>
            (''CAT'' \<in> app_words a \<and> ''CAT'' \<notin> app_found_words a \<longrightarrow>
               on_word_selected a path =
                 Inr (a\<lparr>app_found_words := insert ''CAT'' (app_found_words a),
                        app_found_paths := insert {(0, 0), (0, 1), (0, 2)} (app_found_paths a),
                        app_unfound_words := app_unfound_words a - {''CAT''}\<rparr>)) \<and>
            (''CAT'' \<notin> app_words a \<and> ''TAC'' \<in> app_words a \<and> ''TAC'' \<notin> app_found_words a \<longrightarrow>
               on_word_selected a path =
                 Inr (a\<lparr>app_found_words := insert ''TAC'' (app_found_words a),
                        app_found_paths := insert {(0, 0), (0, 1), (0, 2)} (app_found_paths a),
                        app_unfound_words := app_unfound_words a - {''TAC''}\<rparr>)))"
proof (intro conjI allI impI)
  have letters: "path_letters g path = Inr candidate"
    using len read by (simp only: path_letters_iff simp_thms)
  {
    assume "candidate \<in> app_words a \<and> candidate \<notin> app_found_words a"
    then show "on_word_selected a path =
                Inr (a\<lparr>app_found_words := insert candidate (app_found_words a),
                       app_found_paths := insert (set path) (app_found_paths a),
                       app_unfound_words := app_unfound_words a - {candidate}\<rparr>)"
      using grid letters by (simp add: on_word_selected_def)
  }
  {
    assume "\<not> (candidate \<in> app_words a \<and> candidate \<notin> app_found_words a) \<and>
            rev candidate \<in> app_words a \<and> rev candidate \<notin> app_found_words a"
    then show "on_word_selected a path =
                Inr (a\<lparr>app_found_words := insert (rev candidate) (app_found_words a),
                       app_found_paths := insert (set path) (app_found_paths a),
                       app_unfound_words := app_unfound_words a - {rev candidate}\<rparr>)"
      using grid letters by (auto simp: on_word_selected_def Let_def)
  }
  {
    assume "\<not> (candidate \<in> app_words a \<and> candidate \<notin> app_found_words a) \<and>
            \<not> (rev candidate \<in> app_words a \<and> rev candidate \<notin> app_found_words a)"
    then show "on_word_selected a path = Inr a"
      using grid letters by (auto simp: on_word_selected_def Let_def)
  }
  {
    fix more rest
    assume ex: "g = (''CATDOG'' @ more) # rest \<and> path = [(0, 0), (0, 1), (0, 2)]"
    then have "path_letters g path = Inr ''CAT''"
      by (simp add: grid_get_def py_getitem_def)
    with letters show cand: "candidate = ''CAT''"
      by simp
    {
      assume "''CAT'' \<in> app_words a \<and> ''CAT'' \<notin> app_found_words a"
      then show "on_word_selected a path =
                   Inr (a\<lparr>app_found_words := insert ''CAT'' (app_found_words a),
                          app_found_paths := insert {(0, 0), (0, 1), (0, 2)} (app_found_paths a),
                          app_unfound_words := app_unfound_words a - {''CAT''}\<rparr>)"
        using grid letters cand ex by (simp add: on_word_selected_def)
    }
    {
      assume "''CAT'' \<notin> app_words a \<and> ''TAC'' \<in> app_words a \<and> ''TAC'' \<notin> app_found_words a"
      then show "on_word_selected a path =
                   Inr (a\<lparr>app_found_words := insert ''TAC'' (app_found_words a),
                          app_found_paths := insert {(0, 0), (0, 1), (0, 2)} (app_found_paths a),
                          app_unfound_words := app_unfound_words a - {''TAC''}\<rparr>)"
        using grid letters cand ex by (auto simp: on_word_selected_def Let_def)
    }
  }
qed

theorem selection_marks_word_found_witness:
  "on_word_selected
     \<lparr>app_grid = Some [''CATDOG'', ''QWERTY''], app_words = {''CAT'', ''DOG''},
      app_placed_words = [], app_grid_size = 6, app_unfound_words = {''CAT'', ''DOG''},
      app_found_words = {}, app_found_paths = {}, app_hint_paths = {},
      app_selected_word = None, app_size_spin = 10\<rparr> [(0, 0), (0, 1), (0, 2)] =
     Inr \<lparr>app_grid = Some [''CATDOG'', ''QWERTY''], app_words = {''CAT'', ''DOG''},
          app_placed_words = [], app_grid_size = 6,
          app_unfound_words = {''CAT'', ''DOG''} - {''CAT''},
          app_found_words = {''CAT''}, app_found_paths = {{(0, 0), (0, 1), (0, 2)}},
          app_hint_paths = {}, app_selected_word = None, app_size_spin = 10\<rparr> \<and>
   on_word_selected
     \<lparr>app_grid = Some [''CATDOG'', ''QWERTY''], app_words = {''CAT'', ''DOG''},
      app_placed_words = [], app_grid_size = 6, app_unfound_words = {''CAT'', ''DOG''},
      app_found_words = {}, app_found_paths = {}, app_hint_paths = {},
      app_selected_word = None, app_size_spin = 10\<rparr> [(0, 5), (0, 4), (0, 3)] =
     Inr \<lparr>app_grid = Some [''CATDOG'', ''QWERTY''], app_words = {''CAT'', ''DOG''},
          app_placed_words = [], app_grid_size = 6,
          app_unfound_words = {''CAT'', ''DOG''} - {''DOG''},
          app_found_words = {''DOG''}, app_found_paths = {{(0, 5), (0, 4), (0, 3)}},
          app_hint_paths = {}, app_selected_word = None, app_size_spin = 10\<rparr> \<and>
   on_word_selected
     \<lparr>app_grid = Some [''CATDOG'', ''QWERTY''], app_words = {''TAC'', ''DOG''},
      app_placed_words = [], app_grid_size = 6, app_unfound_words = {''TAC'', ''DOG''},
      app_found_words = {}, app_found_paths = {}, app_hint_paths = {},
      app_selected_word = None, app_size_spin = 10\<rparr> [(0, 0), (0, 1), (0, 2)] =
     Inr \<lparr>app_grid = Some [''CATDOG'', ''QWERTY''], app_words = {''TAC'', ''DOG''},
          app_placed_words = [], app_grid_size = 6,
          app_unfound_words = {''TAC'', ''DOG''} - {''TAC''},
          app_found_words = {''TAC''}, app_found_paths = {{(0, 0), (0, 1), (0, 2)}},
          app_hint_paths = {}, app_selected_word = None, app_size_spin = 10\<rparr>"
proof -
  let ?g = "[''CATDOG'', ''QWERTY'']"
  let ?p = "[(0, 0), (0, 1), (0, 2)] :: cell list"
  let ?q = "[(0, 5), (0, 4), (0, 3)] :: cell list"
  let ?a = "\<lparr>app_grid = Some ?g, app_words = {''CAT'', ''DOG''},
      app_placed_words = [], app_grid_size = 6, app_unfound_words = {''CAT'', ''DOG''},
      app_found_words = {}, app_found_paths = {}, app_hint_paths = {},
      app_selected_word = None, app_size_spin = 10\<rparr>"
  let ?b = "\<lparr>app_grid = Some ?g, app_words = {''TAC'', ''DOG''},
      app_placed_words = [], app_grid_size = 6, app_unfound_words = {''TAC'', ''DOG''},
      app_found_words = {}, app_found_paths = {}, app_hint_paths = {},
      app_selected_word = None, app_size_spin = 10\<rparr>"
  have "path_letters ?g ?p = Inr ''CAT''"
    by (simp add: grid_get_def py_getitem_def)
  from this [THEN path_letters_iff [THEN iffD1]] have lp: "length ''CAT'' = length ?p" and
    rp: "\<forall>i<length ?p. grid_get ?g (fst (?p ! i)) (snd (?p ! i)) = Inr (''CAT'' ! i)"
    by blast+
  have "path_letters ?g ?q = Inr ''GOD''"
    by (simp add: grid_get_def py_getitem_def)
  from this [THEN path_letters_iff [THEN iffD1]] have lq: "length ''GOD'' = length ?q" and
    rq: "\<forall>i<length ?q. grid_get ?g (fst (?q ! i)) (snd (?q ! i)) = Inr (''GOD'' ! i)"
    by blast+
  have "on_word_selected ?a ?p =
      Inr (?a\<lparr>app_found_words := insert ''CAT'' (app_found_words ?a),
               app_found_paths := insert (set ?p) (app_found_paths ?a),
               app_unfound_words := app_unfound_words ?a - {''CAT''}\<rparr>)"
    using selection_marks_word_found [of ?a ?g "''CAT''" ?p, OF _ lp rp] by simp
  moreover have "on_word_selected ?a ?q =
      Inr (?a\<lparr>app_found_words := insert (rev ''GOD'') (app_found_words ?a),
               app_found_paths := insert (set ?q) (app_found_paths ?a),
               app_unfound_words := app_unfound_words ?a - {rev ''GOD''}\<rparr>)"
    using selection_marks_word_found [of ?a ?g "''GOD''" ?q, OF _ lq rq] by simp
  moreover have "on_word_selected ?b ?p =
      Inr (?b\<lparr>app_found_words := insert (rev ''CAT'') (app_found_words ?b),
               app_found_paths := insert (set ?p) (app_found_paths ?b),
               app_unfound_words := app_unfound_words ?b - {rev ''CAT''}\<rparr>)"
    using selection_marks_word_found [of ?b ?g "''CAT''" ?p, OF _ lp rp] by simp
  ultimately show ?thesis
    by simp
qed

section \<open>Hints\<close>

text \<open>
  C8. With a puzzle on screen and the word \<open>w\<close> selected: if \<open>w\<close> is in the unfound
  subset (which shares no word with the found words) and has a stored placement, the
  hint set becomes, whatever it held, the one single-cell path with the first cell of
  that placement's path; if \<open>w\<close> is already found, or no stored placement carries it,
  nothing changes and the user is told so.
\<close>

theorem hint_shows_first_cell:
  assumes puzzle: "grid_truthy (app_grid a)"
    and selected: "app_selected_word a = Some w" and nonempty: "w \<noteq> []"
    and disjoint: "app_unfound_words a \<inter> app_found_words a = {}"
  shows "(w \<in> app_unfound_words a \<and>
          find (\<lambda>word_data. pw_word word_data = w) (app_placed_words a) = Some wd \<and>
          pw_path wd \<noteq> [] \<longrightarrow>
            give_hint a = Inr (HintShown, a\<lparr>app_hint_paths := {{hd (pw_path wd)}}\<rparr>)) \<and>
         (w \<in> app_found_words a \<longrightarrow> give_hint a = Inr (AlreadyFound, a)) \<and>
         (w \<notin> app_found_words a \<and> w \<notin> pw_word ` set (app_placed_words a) \<longrightarrow>
            give_hint a = Inr (WordNotFound, a))"
proof (intro conjI impI)
  assume h: "w \<in> app_unfound_words a \<and>
          find (\<lambda>word_data. pw_word word_data = w) (app_placed_words a) = Some wd \<and>
          pw_path wd \<noteq> []"
  then have "w \<notin> app_found_words a"
    using disjoint by blast
  moreover have "py_getitem (pw_path wd) 0 = Inr (hd (pw_path wd))"
    using h by (simp add: py_getitem_def hd_conv_nth)
  ultimately show "give_hint a = Inr (HintShown, a\<lparr>app_hint_paths := {{hd (pw_path wd)}}\<rparr>)"
    using puzzle selected nonempty h by (simp add: give_hint_def)
next
  assume "w \<in> app_found_words a"
  then show "give_hint a = Inr (AlreadyFound, a)"
    using puzzle selected nonempty by (simp add: give_hint_def)
next
  assume h: "w \<notin> app_found_words a \<and> w \<notin> pw_word ` set (app_placed_words a)"
  then have "find (\<lambda>word_data. pw_word word_data = w) (app_placed_words a) = None"
    by (auto simp: find_None_iff)
  with h show "give_hint a = Inr (WordNotFound, a)"
    using puzzle selected nonempty by (simp add: give_hint_def)
qed

theorem hint_shows_first_cell_witness:
  "give_hint
     \<lparr>app_grid = Some [''CAT'', ''XOX'', ''XXG''], app_words = {''CAT'', ''TOG''},
      app_placed_words =
        [\<lparr>pw_word = ''CAT'', pw_path = [(0, 0), (0, 1), (0, 2)], pw_direction = (0, 1)\<rparr>,
         \<lparr>pw_word = ''TOG'', pw_path = [(0, 2), (1, 1), (2, 0)], pw_direction = (1, - 1)\<rparr>],
      app_grid_size = 3, app_unfound_words = {''CAT''},
      app_found_words = {''TOG''}, app_found_paths = {{(0, 2), (1, 1), (2, 0)}},
      app_hint_paths = {{(2, 2)}, {(1, 1)}},
      app_selected_word = Some ''CAT'', app_size_spin = 10\<rparr> =
   Inr (HintShown,
     \<lparr>app_grid = Some [''CAT'', ''XOX'', ''XXG''], app_words = {''CAT'', ''TOG''},
      app_placed_words =
        [\<lparr>pw_word = ''CAT'', pw_path = [(0, 0), (0, 1), (0, 2)], pw_direction = (0, 1)\<rparr>,
         \<lparr>pw_word = ''TOG'', pw_path = [(0, 2), (1, 1), (2, 0)], pw_direction = (1, - 1)\<rparr>],
      app_grid_size = 3, app_unfound_words = {''CAT''},
      app_found_words = {''TOG''}, app_found_paths = {{(0, 2), (1, 1), (2, 0)}},
      app_hint_paths = {{(0, 0)}},
      app_selected_word = Some ''CAT'', app_size_spin = 10\<rparr>)"
proof -
  let ?cat = "\<lparr>pw_word = ''CAT'', pw_path = [(0, 0), (0, 1), (0, 2)], pw_direction = (0, 1)\<rparr>"
  let ?tog = "\<lparr>pw_word = ''TOG'', pw_path = [(0, 2), (1, 1), (2, 0)], pw_direction = (1, - 1)\<rparr>"
  let ?a = "\<lparr>app_grid = Some [''CAT'', ''XOX'', ''XXG''], app_words = {''CAT'', ''TOG''},
      app_placed_words = [?cat, ?tog],
      app_grid_size = 3, app_unfound_words = {''CAT''},
      app_found_words = {''TOG''}, app_found_paths = {{(0, 2), (1, 1), (2, 0)}},
      app_hint_paths = {{(2, 2)}, {(1, 1)}},
      app_selected_word = Some ''CAT'', app_size_spin = 10\<rparr>"
  have puzzle: "grid_truthy (app_grid ?a)"
    by (simp add: grid_truthy_def)
  have selected: "app_selected_word ?a = Some ''CAT''" by simp
  have nonempty: "''CAT'' \<noteq> []" by simp
  have disjoint: "app_unfound_words ?a \<inter> app_found_words ?a = {}" by simp
  have stored: "''CAT'' \<in> app_unfound_words ?a \<and>
      find (\<lambda>word_data. pw_word word_data = ''CAT'') (app_placed_words ?a) = Some ?cat \<and>
      pw_path ?cat \<noteq> []"
    by simp
  from hint_shows_first_cell [OF puzzle selected nonempty disjoint, of ?cat] stored
  have "give_hint ?a = Inr (HintShown, ?a\<lparr>app_hint_paths := {{hd (pw_path ?cat)}}\<rparr>)"
    by blast
  then show ?thesis by simp
qed

section \<open>A click without a drag\<close>

text \<open>
  C9. If every target word has at least \<open>MIN_WORD_LEN = 2\<close> letters, releasing the left
  button over a one-cell path of the grid matches nothing: the application state (found
  words, found paths and unfound words among it) is returned as it was, and the widget
  has left the drag with an empty path.
\<close>

theorem click_matches_nothing:
  assumes long: "\<forall>word \<in> app_words a. MIN_WORD_LEN \<le> length word"
    and grid: "app_grid a = Some g"
    and drag: "is_dragging w" and path: "current_temp_path w = [(r, c)]"
    and cell: "grid_get g r c = Inr x"
  shows "release_and_select w a LeftButton =
           Inr (w\<lparr>is_dragging := False, current_temp_path := []\<rparr>, a)"
proof -
  have letters: "path_letters g [(r, c)] = Inr [x]"
    using cell by simp
  have "[x] \<notin> app_words a" "rev [x] \<notin> app_words a"
    using long by (auto simp: MIN_WORD_LEN_def)
  then have "on_word_selected a [(r, c)] = Inr a"
    using grid letters by (simp add: on_word_selected_def)
  then show ?thesis
    using drag path by (simp add: release_and_select_def mouseReleaseEvent_def)
qed

theorem click_matches_nothing_witness:
  "release_and_select
     \<lparr>pg_grid = Some [''CAT'', ''XOX'', ''XXG''], pg_grid_size = 3, is_dragging = True,
      drag_start_cell = Some (1, 1), drag_current_cell = Some (1, 1),
      current_temp_path = [(1, 1)]\<rparr>
     \<lparr>app_grid = Some [''CAT'', ''XOX'', ''XXG''], app_words = {''CAT'', ''TOG''},
      app_placed_words = [], app_grid_size = 3, app_unfound_words = {''CAT'', ''TOG''},
      app_found_words = {}, app_found_paths = {}, app_hint_paths = {},
      app_selected_word = None, app_size_spin = 10\<rparr>
     LeftButton =
   Inr (\<lparr>pg_grid = Some [''CAT'', ''XOX'', ''XXG''], pg_grid_size = 3, is_dragging = False,
         drag_start_cell = Some (1, 1), drag_current_cell = Some (1, 1),
         current_temp_path = []\<rparr>,
        \<lparr>app_grid = Some [''CAT'', ''XOX'', ''XXG''], app_words = {''CAT'', ''TOG''},
         app_placed_words = [], app_grid_size = 3, app_unfound_words = {''CAT'', ''TOG''},
         app_found_words = {}, app_found_paths = {}, app_hint_paths = {},
         app_selected_word = None, app_size_spin = 10\<rparr>)"
proof -
  let ?g = "[''CAT'', ''XOX'', ''XXG'']"
  let ?w = "\<lparr>pg_grid = Some ?g, pg_grid_size = 3, is_dragging = True,
      drag_start_cell = Some (1, 1), drag_current_cell = Some (1, 1),
      current_temp_path = [(1, 1)]\<rparr>"
  let ?a = "\<lparr>app_grid = Some ?g, app_words = {''CAT'', ''TOG''},
      app_placed_words = [], app_grid_size = 3, app_unfound_words = {''CAT'', ''TOG''},
      app_found_words = {}, app_found_paths = {}, app_hint_paths = {},
      app_selected_word = None, app_size_spin = 10\<rparr>"
  have long: "\<forall>word \<in> app_words ?a. MIN_WORD_LEN \<le> length word"
    by (simp add: MIN_WORD_LEN_def)
  have grid: "app_grid ?a = Some ?g" by simp
  have drag: "is_dragging ?w" by simp
  have path: "current_temp_path ?w = [(1, 1)]" by simp
  have cell: "grid_get ?g 1 1 = Inr (CHR ''O'')"
    by (simp add: grid_get_def py_getitem_def)
  from click_matches_nothing [OF long grid drag path cell]
  show ?thesis by simp
qed

section \<open>Loading a file with a missing field\<close>

text \<open>
  C2. Loading a malformed file should surface a recoverable error and leave the puzzle
  in memory as it was. \<open>load_puzzle\<close> reports the error but does not keep the state: for
  a file without \<open>placed_words\<close>, loaded while a partly solved puzzle is in memory, the
  \<open>KeyError\<close> is caught and shown after \<open>grid\<close> and \<open>words\<close> have taken the file's values,
  which now stand next to the placements, the size and the solver sets of the old puzzle.
\<close>

theorem load_missing_field_overwrites:
  "load_puzzle
     \<lparr>app_grid = Some [''CAT'', ''XOX'', ''XXG''], app_words = {''CAT'', ''TOG''},
      app_placed_words =
        [\<lparr>pw_word = ''CAT'', pw_path = [(0, 0), (0, 1), (0, 2)], pw_direction = (0, 1)\<rparr>,
         \<lparr>pw_word = ''TOG'', pw_path = [(0, 2), (1, 1), (2, 0)], pw_direction = (1, - 1)\<rparr>],
      app_grid_size = 3, app_unfound_words = {''CAT''},
      app_found_words = {''TOG''}, app_found_paths = {{(0, 2), (1, 1), (2, 0)}},
      app_hint_paths = {}, app_selected_word = None, app_size_spin = 10\<rparr>
     (Some (Parsed \<lparr>pd_grid = Some [''HI'', ''ZZ''], pd_words = Some [''HI''],
                    pd_placed_words = None, pd_grid_size = Some 2\<rparr>)) =
   (Some (KeyError ''placed_words''),
     \<lparr>app_grid = Some [''HI'', ''ZZ''], app_words = {''HI''},
      app_placed_words =
        [\<lparr>pw_word = ''CAT'', pw_path = [(0, 0), (0, 1), (0, 2)], pw_direction = (0, 1)\<rparr>,
         \<lparr>pw_word = ''TOG'', pw_path = [(0, 2), (1, 1), (2, 0)], pw_direction = (1, - 1)\<rparr>],
      app_grid_size = 3, app_unfound_words = {''CAT''},
      app_found_words = {''TOG''}, app_found_paths = {{(0, 2), (1, 1), (2, 0)}},
      app_hint_paths = {}, app_selected_word = None, app_size_spin = 10\<rparr>) \<and>
   Some [''HI'', ''ZZ''] \<noteq> Some [''CAT'', ''XOX'', ''XXG'']"
  by (simp add: load_puzzle_def)

text \<open>
  Nothing in \<open>load_puzzle\<close> looks at the coordinates: a file whose placement lies outside
  the grid is loaded without any error.
\<close>

lemma load_accepts_out_of_range_path:
  "fst (load_puzzle a
     (Some (Parsed \<lparr>pd_grid = Some [''HI'', ''ZZ''], pd_words = Some [''HI''],
                    pd_placed_words =
                      Some [\<lparr>pw_word = ''HI'', pw_path = [(7, 7), (7, 8)],
                              pw_direction = (0, 1)\<rparr>],
                    pd_grid_size = Some 2\<rparr>))) = None"
  by (simp add: load_puzzle_def Let_def)

end
